theory Spec2Isabelle
  imports Main "HOL-Library.AList"
begin

section \<open>Python dictionaries\<close>

text \<open>
  A Python \<open>dict\<close> keeps its keys unique and in insertion order, and
  \<open>register_component\<close> stops at the first colliding motor in that order.
  A dictionary is therefore an association list whose keys are distinct;
  \<open>d[k] = v\<close> replaces the value in place when \<open>k\<close> is present and appends
  \<open>(k, v)\<close> otherwise.
\<close>

type_synonym ('k, 'v) dict = "('k \<times> 'v) list"

definition dict_keys :: "('k, 'v) dict \<Rightarrow> 'k list" where
  "dict_keys d = map fst d"

definition dict_contains :: "'k \<Rightarrow> ('k, 'v) dict \<Rightarrow> bool" where
  "dict_contains k d = (k \<in> set (dict_keys d))"

primrec dict_set :: "'k \<Rightarrow> 'v \<Rightarrow> ('k, 'v) dict \<Rightarrow> ('k, 'v) dict" where
  "dict_set k v [] = [(k, v)]"
| "dict_set k v (p # ps) = (if fst p = k then (k, v) # ps else p # dict_set k v ps)"

section \<open>Data model\<close>

text \<open>
  \<open>lerobot.motors.Motor\<close>: numeric id, model tag and normalization mode. The
  normalization mode (an enum of \<open>lerobot.motors\<close>) and the calibration payload
  \<open>MotorCalibration\<close> are opaque to the shared-bus layer: type parameters \<open>'n\<close>
  and \<open>'c\<close>. Register values (\<open>Any\<close> in the source) are the parameter \<open>'v\<close>.
\<close>

record 'n Motor =
  motor_id :: int
  model :: string
  norm_mode :: 'n

datatype error =
    ValueError string
  | RuntimeError string
  | KeyError string
  | TypeError

text \<open>\<open>SharedBusAssemblyConfig\<close> of \<open>config_xlerobot.py\<close> (the field \<open>type\<close> is
  called \<open>bus_type\<close> here).\<close>

record SharedBusAssemblyConfig =
  bus_type :: string
  port :: string
  protocol_version :: int
  handshake_on_connect :: bool

text \<open>A motor addressed singly: \<open>str | int\<close>.\<close>

datatype target = MotorName string | MotorNumber int

text \<open>The \<open>motors\<close> argument of the torque and batch operations:
  \<open>int | str | list[str] | None\<close>.\<close>

datatype motors_arg =
    AllMotors
  | OneMotor string
  | MotorList "string list"
  | MotorInt int

subsection \<open>The Bus Handle\<close>

text \<open>The calls a Bus Handle receives, with their arguments in the order of the
  source: \<open>data_name\<close>, motor(s), value(s), \<open>normalize\<close>, \<open>num_retry\<close>.\<close>

datatype ('v, 'c) bus_call =
    Connect bool
  | Disconnect bool
  | DisableTorque "string list" int
  | EnableTorque "string list" int
  | ConfigureMotors "string list"
  | Write string "target option" 'v bool int
  | SyncWrite string "(string, 'v) dict" bool int
  | SyncRead string "string list" bool int
  | SetHalfTurnHomings "string list"
  | RecordRangesOfMotion "string list"
  | WriteCalibration "(string, 'c) dict"
  | SetupMotor "target option" "int option" "int option"

text \<open>
  Modelled from the spec: the Bus Handle, \<open>lerobot.motors.feetech.FeetechMotorsBus\<close>,
  whose class is not among the sources. The spec describes it as a synchronous
  driver for one physical bus (connect, disconnect, register reads and writes,
  calibration storage) that the manager constructs from its Global Namespace and
  Global Calibration Table. The handle is modelled by what the shared-bus layer
  reads from it (\<open>is_connected\<close>, \<open>calibration\<close>) and by the trace of the
  calls it has received, oldest first.
\<close>

record ('n, 'v, 'c) FeetechMotorsBus =
  bus_port :: string
  bus_motors :: "(string, 'n Motor) dict"
  bus_calibration :: "(string, 'c) dict"
  bus_protocol_version :: int
  bus_is_connected :: bool
  bus_calls :: "('v, 'c) bus_call list"

subsection \<open>View and Manager\<close>

text \<open>\<open>FeetechBusView\<close>: the dataclass fields \<open>local_motors\<close> and \<open>local_to_bus\<close>
  and the attribute \<open>_connected\<close> set by \<open>__post_init__\<close>. The field \<open>manager\<close>
  is a reference to the owning manager; every operation of a view takes the
  manager's state and returns it updated.\<close>

record 'n FeetechBusView =
  local_motors :: "(string, 'n Motor) dict"
  local_to_bus :: "(string, string) dict"
  connected :: bool

text \<open>\<open>FeetechBusManager\<close>: \<open>_motor_defs\<close> is the Global Namespace,
  \<open>_calibration\<close> the Global Calibration Table, \<open>_refcount\<close> the reference
  count. \<open>views\<close> keeps each view as it was constructed; the attribute
  \<open>_connected\<close> of a live view is tracked by the view value that the caller
  holds.\<close>

record ('n, 'v, 'c) FeetechBusManager =
  name :: string
  config :: SharedBusAssemblyConfig
  motor_defs :: "(string, 'n Motor) dict"
  calibration :: "(string, 'c) dict"
  views :: "(string, 'n FeetechBusView) dict"
  bus :: "('n, 'v, 'c) FeetechMotorsBus option"
  refcount :: int

definition FeetechBusManager_init ::
  "string \<Rightarrow> SharedBusAssemblyConfig \<Rightarrow> ('n, 'v, 'c) FeetechBusManager" where
  "FeetechBusManager_init nm cfg =
     \<lparr>name = nm, config = cfg, motor_defs = [], calibration = [], views = [],
      bus = None, refcount = 0\<rparr>"

definition FeetechBusView_init ::
  "(string, 'n Motor) dict \<Rightarrow> (string, string) dict \<Rightarrow> 'n FeetechBusView" where
  "FeetechBusView_init lm l2b = \<lparr>local_motors = lm, local_to_bus = l2b, connected = False\<rparr>"

section \<open>\<open>FeetechBusManager.register_component\<close>\<close>

definition collision_message :: "string \<Rightarrow> string \<Rightarrow> string" where
  "collision_message nm bus_name =
     ''Motor name collision on shared bus '' @ [CHR 0x27] @ nm @ [CHR 0x27] @ '': '' @ bus_name"

text \<open>The body of the \<open>for\<close> loop over \<open>local_motors.items()\<close>. The loop writes
  to the manager as it goes, so a \<open>raise\<close> in a later iteration leaves the writes
  of the earlier ones in place: the manager's state is returned next to the
  error.\<close>

fun register_loop ::
  "string \<Rightarrow> int \<Rightarrow> (string, 'c) dict option \<Rightarrow> (string \<times> 'n Motor) list \<Rightarrow>
   ('n, 'v, 'c) FeetechBusManager \<Rightarrow> (string, 'n Motor) dict \<Rightarrow> (string, string) dict \<Rightarrow>
   (error + (string, 'n Motor) dict \<times> (string, string) dict) \<times> ('n, 'v, 'c) FeetechBusManager"
where
  "register_loop prefix offs ic [] m local_copy mapping = (Inr (local_copy, mapping), m)"
| "register_loop prefix offs ic ((motor_name, motor) # rest) m local_copy mapping =
     (let bus_name = prefix @ motor_name in
      if dict_contains bus_name (motor_defs m)
      then (Inl (ValueError (collision_message (name m) bus_name)), m)
      else
        let updated_motor =
              \<lparr>motor_id = motor_id motor + offs, model = model motor,
               norm_mode = norm_mode motor\<rparr>;
            m1 = m\<lparr>motor_defs := dict_set bus_name updated_motor (motor_defs m)\<rparr>;
            local_copy1 =
              dict_set motor_name
                \<lparr>motor_id = motor_id updated_motor, model = model updated_motor,
                 norm_mode = norm_mode updated_motor\<rparr> local_copy;
            mapping1 = dict_set motor_name bus_name mapping;
            m2 = (case ic of
                    None \<Rightarrow> m1
                  | Some cal \<Rightarrow>
                      (case map_of cal motor_name of
                         None \<Rightarrow> m1
                       | Some c \<Rightarrow> m1\<lparr>calibration := dict_set bus_name c (calibration m1)\<rparr>))
        in register_loop prefix offs ic rest m2 local_copy1 mapping1)"

definition register_component ::
  "('n, 'v, 'c) FeetechBusManager \<Rightarrow> string \<Rightarrow> (string, 'n Motor) dict \<Rightarrow> string \<Rightarrow> int \<Rightarrow>
   (string, 'c) dict option \<Rightarrow>
   (error + 'n FeetechBusView) \<times> ('n, 'v, 'c) FeetechBusManager" where
  "register_component m component_name lms prefix motor_id_offset initial_calibration =
     (case register_loop prefix motor_id_offset initial_calibration lms m [] [] of
        (Inl e, m') \<Rightarrow> (Inl e, m')
      | (Inr (local_copy, mapping), m') \<Rightarrow>
          (let view = FeetechBusView_init local_copy mapping
           in (Inr view, m'\<lparr>views := dict_set component_name view (views m')\<rparr>)))"

text \<open>Names for the entries that a registration writes: the renumbered motor
  \<open>Motor(id=motor.id + motor_id_offset, model=motor.model, norm_mode=motor.norm_mode)\<close>,
  the Global Namespace entry, the entry of the view's \<open>local_motors\<close>, the entry
  of its local-to-global map, and the Global Calibration Table after the
  \<open>if initial_calibration and motor_name in initial_calibration\<close> statement.\<close>

definition renumbered :: "int \<Rightarrow> 'n Motor \<Rightarrow> 'n Motor" where
  "renumbered offs mot =
     \<lparr>motor_id = motor_id mot + offs, model = model mot, norm_mode = norm_mode mot\<rparr>"

definition global_entry :: "string \<Rightarrow> int \<Rightarrow> string \<times> 'n Motor \<Rightarrow> string \<times> 'n Motor" where
  "global_entry prefix offs e = (prefix @ fst e, renumbered offs (snd e))"

definition local_entry :: "int \<Rightarrow> string \<times> 'n Motor \<Rightarrow> string \<times> 'n Motor" where
  "local_entry offs e = (fst e, renumbered offs (snd e))"

definition mapping_entry :: "string \<Rightarrow> string \<times> 'n Motor \<Rightarrow> string \<times> string" where
  "mapping_entry prefix e = (fst e, prefix @ fst e)"

definition seeded ::
  "(string, 'c) dict option \<Rightarrow> string \<Rightarrow> string \<Rightarrow> (string, 'c) dict \<Rightarrow> (string, 'c) dict" where
  "seeded ic motor_name bus_name cal =
     (case ic of
        None \<Rightarrow> cal
      | Some d \<Rightarrow> (case map_of d motor_name of None \<Rightarrow> cal | Some c \<Rightarrow> dict_set bus_name c cal))"

section \<open>Connection lifecycle of the manager\<close>

text \<open>
  Modelled from the spec: the constructor and the methods of the Bus Handle
  (\<open>FeetechMotorsBus\<close> is not among the sources). A new handle holds the motors
  and the calibration it is given (no calibration when given \<open>None\<close>), is not
  connected and has received no call. \<open>connect\<close> and \<open>disconnect\<close> switch
  \<open>is_connected\<close>; every call is appended to the trace.
\<close>

definition FeetechMotorsBus_init ::
  "string \<Rightarrow> (string, 'n Motor) dict \<Rightarrow> (string, 'c) dict option \<Rightarrow> int \<Rightarrow>
   ('n, 'v, 'c) FeetechMotorsBus" where
  "FeetechMotorsBus_init p motors cal pv =
     \<lparr>bus_port = p, bus_motors = motors,
      bus_calibration = (case cal of None \<Rightarrow> [] | Some c \<Rightarrow> c),
      bus_protocol_version = pv, bus_is_connected = False, bus_calls = []\<rparr>"

text \<open>Modelled from the spec: any method call on the handle (the class is not among
  the sources); the call is recorded at the end of the trace.\<close>

definition bus_receive ::
  "('v, 'c) bus_call \<Rightarrow> ('n, 'v, 'c) FeetechMotorsBus \<Rightarrow> ('n, 'v, 'c) FeetechMotorsBus" where
  "bus_receive c b = b\<lparr>bus_calls := bus_calls b @ [c]\<rparr>"

text \<open>Modelled from the spec: \<open>FeetechMotorsBus.connect\<close> (not among the sources);
  the handle is connected afterwards.\<close>

definition bus_connect ::
  "bool \<Rightarrow> ('n, 'v, 'c) FeetechMotorsBus \<Rightarrow> ('n, 'v, 'c) FeetechMotorsBus" where
  "bus_connect handshake b = (bus_receive (Connect handshake) b)\<lparr>bus_is_connected := True\<rparr>"

text \<open>Modelled from the spec: \<open>FeetechMotorsBus.disconnect\<close> (not among the
  sources); the handle is not connected afterwards.\<close>

definition bus_disconnect ::
  "bool \<Rightarrow> ('n, 'v, 'c) FeetechMotorsBus \<Rightarrow> ('n, 'v, 'c) FeetechMotorsBus" where
  "bus_disconnect disable_torque b =
     (bus_receive (Disconnect disable_torque) b)\<lparr>bus_is_connected := False\<rparr>"

text \<open>
  Modelled from the spec: the truth value of a handle in a condition. The source
  tests the handle itself (\<open>self.bus and ...\<close>, \<open>self.manager.bus and ...\<close>),
  not \<open>self.bus is not None\<close>. The class is not among the sources; its objects
  have a length, the number of motors the handle was constructed with, and
  Python takes an object of length zero as false: a handle without motors does
  not pass these tests.
\<close>

definition bus_truth :: "('n, 'v, 'c) FeetechMotorsBus \<Rightarrow> bool" where
  "bus_truth b = (bus_motors b \<noteq> [])"

text \<open>\<open>_ensure_bus\<close>: \<open>self._calibration or None\<close> is \<open>None\<close> for an empty
  table.\<close>

definition ensure_bus :: "('n, 'v, 'c) FeetechBusManager \<Rightarrow> ('n, 'v, 'c) FeetechBusManager" where
  "ensure_bus m =
     (case bus m of
        None \<Rightarrow>
          (let cal = (if calibration m = [] then None else Some (calibration m))
           in m\<lparr>bus := Some (FeetechMotorsBus_init (port (config m)) (motor_defs m) cal
                              (protocol_version (config m)))\<rparr>)
      | Some b \<Rightarrow> m)"

text \<open>\<open>acquire\<close>: the condition is
  \<open>self._refcount == 1 and self.bus and not self.bus.is_connected\<close>. The argument
  \<open>handshake\<close> may be \<open>None\<close>, in which case the configured
  \<open>handshake_on_connect\<close> is used.\<close>

definition acquire ::
  "bool option \<Rightarrow> ('n, 'v, 'c) FeetechBusManager \<Rightarrow> ('n, 'v, 'c) FeetechBusManager" where
  "acquire handshake m =
     (let m1 = ensure_bus m;
          m2 = m1\<lparr>refcount := refcount m1 + 1\<rparr>
      in case bus m2 of
           None \<Rightarrow> m2
         | Some b \<Rightarrow>
             if refcount m2 = 1 \<and> bus_truth b \<and> \<not> bus_is_connected b
             then (let handshake_flag =
                         (case handshake of
                            None \<Rightarrow> handshake_on_connect (config m2)
                          | Some h \<Rightarrow> h)
                   in m2\<lparr>bus := Some (bus_connect handshake_flag b)\<rparr>)
             else m2)"

text \<open>\<open>release\<close>: the condition is
  \<open>self._refcount == 0 and self.bus and self.bus.is_connected\<close>.\<close>

definition release ::
  "bool \<Rightarrow> ('n, 'v, 'c) FeetechBusManager \<Rightarrow> ('n, 'v, 'c) FeetechBusManager" where
  "release disable_torque m =
     (if refcount m = 0 then m
      else
        (let m1 = m\<lparr>refcount := refcount m - 1\<rparr>
         in case bus m1 of
              None \<Rightarrow> m1
            | Some b \<Rightarrow>
                if refcount m1 = 0 \<and> bus_truth b \<and> bus_is_connected b
                then m1\<lparr>bus := Some (bus_disconnect disable_torque b)\<rparr>
                else m1))"

text \<open>\<open>FeetechBusManager.is_connected\<close>: \<open>bool(self.bus and self.bus.is_connected)\<close>.\<close>

definition manager_is_connected :: "('n, 'v, 'c) FeetechBusManager \<Rightarrow> bool" where
  "manager_is_connected m =
     (case bus m of None \<Rightarrow> False | Some b \<Rightarrow> bus_truth b \<and> bus_is_connected b)"

text \<open>The handle exists and reports connected (\<open>bus is not None and
  bus.is_connected\<close>, the test of \<open>is_calibrated\<close>); and the handle that
  \<open>acquire\<close> works with, which is the existing one or else the one that
  \<open>_ensure_bus\<close> constructs from the Global Namespace, is true.\<close>

definition handle_connected :: "('n, 'v, 'c) FeetechBusManager \<Rightarrow> bool" where
  "handle_connected m = (case bus m of None \<Rightarrow> False | Some b \<Rightarrow> bus_is_connected b)"

definition handle_true :: "('n, 'v, 'c) FeetechBusManager \<Rightarrow> bool" where
  "handle_true m = (case bus m of None \<Rightarrow> motor_defs m \<noteq> [] | Some b \<Rightarrow> bus_truth b)"

text \<open>Sequences of calls, and the calls the handle has received so far.\<close>

definition acquires ::
  "bool option list \<Rightarrow> ('n, 'v, 'c) FeetechBusManager \<Rightarrow> ('n, 'v, 'c) FeetechBusManager" where
  "acquires hs m = fold acquire hs m"

definition releases ::
  "bool list \<Rightarrow> ('n, 'v, 'c) FeetechBusManager \<Rightarrow> ('n, 'v, 'c) FeetechBusManager" where
  "releases ds m = fold release ds m"

definition calls_of :: "('n, 'v, 'c) FeetechBusManager \<Rightarrow> ('v, 'c) bus_call list" where
  "calls_of m = (case bus m of None \<Rightarrow> [] | Some b \<Rightarrow> bus_calls b)"

definition handshake_flag_of ::
  "('n, 'v, 'c) FeetechBusManager \<Rightarrow> bool option \<Rightarrow> bool" where
  "handshake_flag_of m handshake =
     (case handshake of None \<Rightarrow> handshake_on_connect (config m) | Some h \<Rightarrow> h)"

section \<open>\<open>FeetechBusView\<close>: translation helpers\<close>

definition translate_motor :: "'n FeetechBusView \<Rightarrow> target option \<Rightarrow> error + target option" where
  "translate_motor v motor =
     (case motor of
        None \<Rightarrow> Inr None
      | Some (MotorNumber i) \<Rightarrow> Inr (Some (MotorNumber i))
      | Some (MotorName s) \<Rightarrow>
          (case map_of (local_to_bus v) s of
             None \<Rightarrow> Inl (KeyError s)
           | Some g \<Rightarrow> Inr (Some (MotorName g))))"

text \<open>\<open>[self.local_to_bus[name] for name in names]\<close>: the first missing name raises
  \<open>KeyError\<close>.\<close>

fun lookup_all :: "(string, string) dict \<Rightarrow> string list \<Rightarrow> error + string list" where
  "lookup_all l2b [] = Inr []"
| "lookup_all l2b (n # ns) =
     (case map_of l2b n of
        None \<Rightarrow> Inl (KeyError n)
      | Some g \<Rightarrow> (case lookup_all l2b ns of Inl e \<Rightarrow> Inl e | Inr gs \<Rightarrow> Inr (g # gs)))"

text \<open>\<open>_translate_motors\<close>: an \<open>int\<close> (which the signature of \<open>disable_torque\<close>
  admits) is neither \<open>None\<close> nor a \<open>str\<close>, so the last branch iterates over it,
  which raises \<open>TypeError\<close>.\<close>

definition translate_motors :: "'n FeetechBusView \<Rightarrow> motors_arg \<Rightarrow> error + string list" where
  "translate_motors v motors =
     (case motors of
        AllMotors \<Rightarrow> lookup_all (local_to_bus v) (dict_keys (local_motors v))
      | OneMotor s \<Rightarrow>
          (case map_of (local_to_bus v) s of None \<Rightarrow> Inl (KeyError s) | Some g \<Rightarrow> Inr [g])
      | MotorList ns \<Rightarrow> lookup_all (local_to_bus v) ns
      | MotorInt i \<Rightarrow> Inl TypeError)"

text \<open>\<open>_translate_dict\<close>: a dictionary comprehension, built item by item.\<close>

fun translate_items ::
  "(string, string) dict \<Rightarrow> (string \<times> 'a) list \<Rightarrow> (string, 'a) dict \<Rightarrow> error + (string, 'a) dict"
where
  "translate_items l2b [] acc = Inr acc"
| "translate_items l2b ((n, x) # rest) acc =
     (case map_of l2b n of
        None \<Rightarrow> Inl (KeyError n)
      | Some g \<Rightarrow> translate_items l2b rest (dict_set g x acc))"

definition translate_dict :: "'n FeetechBusView \<Rightarrow> (string, 'a) dict \<Rightarrow> error + (string, 'a) dict" where
  "translate_dict v values = translate_items (local_to_bus v) values []"

text \<open>\<open>_map_dict_to_local\<close>: \<open>reverse\<close> is built from the items of \<open>local_to_bus\<close>
  in order (a later local name wins a shared bus name), then the values are
  filtered and renamed, again item by item.\<close>

definition reverse_of :: "(string, string) dict \<Rightarrow> (string, string) dict" where
  "reverse_of l2b = foldl (\<lambda>acc e. dict_set (snd e) (fst e) acc) [] l2b"

definition map_dict_to_local :: "'n FeetechBusView \<Rightarrow> (string, 'a) dict \<Rightarrow> (string, 'a) dict" where
  "map_dict_to_local v values =
     (let reverse = reverse_of (local_to_bus v)
      in foldl (\<lambda>acc e. case map_of reverse (fst e) of
                           None \<Rightarrow> acc
                         | Some l \<Rightarrow> dict_set l (snd e) acc) [] values)"

section \<open>\<open>FeetechBusView\<close>: properties and lifecycle\<close>

definition view_calibration ::
  "'n FeetechBusView \<Rightarrow> ('n, 'v, 'c) FeetechBusManager \<Rightarrow> (string, 'c) dict" where
  "view_calibration v m =
     (case bus m of None \<Rightarrow> [] | Some b \<Rightarrow> map_dict_to_local v (bus_calibration b))"

text \<open>\<open>FeetechBusView.is_connected\<close>:
  \<open>bool(self.manager.bus and self.manager.bus.is_connected)\<close>.\<close>

definition view_is_connected :: "'n FeetechBusView \<Rightarrow> ('n, 'v, 'c) FeetechBusManager \<Rightarrow> bool" where
  "view_is_connected v m =
     (case bus m of None \<Rightarrow> False | Some b \<Rightarrow> bus_truth b \<and> bus_is_connected b)"

text \<open>\<open>all(self.local_to_bus[name] in bus.calibration for name in self.local_motors)\<close>:
  \<open>all\<close> stops at the first false element, so a name missing from
  \<open>local_to_bus\<close> raises \<open>KeyError\<close> only when it is reached.\<close>

fun all_calibrated ::
  "(string, string) dict \<Rightarrow> (string, 'c) dict \<Rightarrow> string list \<Rightarrow> error + bool" where
  "all_calibrated l2b cal [] = Inr True"
| "all_calibrated l2b cal (n # ns) =
     (case map_of l2b n of
        None \<Rightarrow> Inl (KeyError n)
      | Some g \<Rightarrow> if dict_contains g cal then all_calibrated l2b cal ns else Inr False)"

definition is_calibrated ::
  "'n FeetechBusView \<Rightarrow> ('n, 'v, 'c) FeetechBusManager \<Rightarrow> error + bool" where
  "is_calibrated v m =
     (case bus m of
        None \<Rightarrow> Inr False
      | Some b \<Rightarrow>
          if \<not> bus_is_connected b then Inr False
          else all_calibrated (local_to_bus v) (bus_calibration b) (dict_keys (local_motors v)))"

definition connect ::
  "bool option \<Rightarrow> 'n FeetechBusView \<Rightarrow> ('n, 'v, 'c) FeetechBusManager \<Rightarrow>
   ('n, 'v, 'c) FeetechBusManager \<times> 'n FeetechBusView" where
  "connect handshake v m = (acquire handshake m, v\<lparr>connected := True\<rparr>)"

definition uninitialized :: error where
  "uninitialized = RuntimeError ''Shared bus not initialized.''"

text \<open>The torque and configuration calls: \<open>if subset and self.manager.bus\<close>.\<close>

definition disable_torque ::
  "'n FeetechBusView \<Rightarrow> ('n, 'v, 'c) FeetechBusManager \<Rightarrow> motors_arg \<Rightarrow> int \<Rightarrow>
   (error + unit) \<times> ('n, 'v, 'c) FeetechBusManager" where
  "disable_torque v m motors num_retry =
     (case translate_motors v motors of
        Inl e \<Rightarrow> (Inl e, m)
      | Inr subs \<Rightarrow>
          (case bus m of
             None \<Rightarrow> (Inr (), m)
           | Some b \<Rightarrow>
               if subs \<noteq> [] \<and> bus_truth b
               then (Inr (), m\<lparr>bus := Some (bus_receive (DisableTorque subs num_retry) b)\<rparr>)
               else (Inr (), m)))"

definition enable_torque ::
  "'n FeetechBusView \<Rightarrow> ('n, 'v, 'c) FeetechBusManager \<Rightarrow> motors_arg \<Rightarrow> int \<Rightarrow>
   (error + unit) \<times> ('n, 'v, 'c) FeetechBusManager" where
  "enable_torque v m motors num_retry =
     (case translate_motors v motors of
        Inl e \<Rightarrow> (Inl e, m)
      | Inr subs \<Rightarrow>
          (case bus m of
             None \<Rightarrow> (Inr (), m)
           | Some b \<Rightarrow>
               if subs \<noteq> [] \<and> bus_truth b
               then (Inr (), m\<lparr>bus := Some (bus_receive (EnableTorque subs num_retry) b)\<rparr>)
               else (Inr (), m)))"

definition configure_motors ::
  "'n FeetechBusView \<Rightarrow> ('n, 'v, 'c) FeetechBusManager \<Rightarrow> motors_arg \<Rightarrow>
   (error + unit) \<times> ('n, 'v, 'c) FeetechBusManager" where
  "configure_motors v m motors =
     (case translate_motors v motors of
        Inl e \<Rightarrow> (Inl e, m)
      | Inr subs \<Rightarrow>
          (case bus m of
             None \<Rightarrow> (Inr (), m)
           | Some b \<Rightarrow>
               if subs \<noteq> [] \<and> bus_truth b
               then (Inr (), m\<lparr>bus := Some (bus_receive (ConfigureMotors subs) b)\<rparr>)
               else (Inr (), m)))"

text \<open>\<open>disconnect\<close>: an exception of \<open>self.disable_torque()\<close> leaves the view
  attached and the manager unreleased.\<close>

definition disconnect ::
  "bool \<Rightarrow> 'n FeetechBusView \<Rightarrow> ('n, 'v, 'c) FeetechBusManager \<Rightarrow>
   (error + unit) \<times> ('n, 'v, 'c) FeetechBusManager \<times> 'n FeetechBusView" where
  "disconnect disable_torque_flag v m =
     (if \<not> connected v then (Inr (), m, v)
      else
        (case (if disable_torque_flag \<and> view_is_connected v m
               then disable_torque v m AllMotors 0 else (Inr (), m)) of
           (Inl e, m1) \<Rightarrow> (Inl e, m1, v)
         | (Inr u, m1) \<Rightarrow> (Inr (), release disable_torque_flag m1, v\<lparr>connected := False\<rparr>)))"

section \<open>\<open>FeetechBusView\<close>: delegated bus operations\<close>

text \<open>
  Each operation checks \<open>self.manager.bus is None\<close> first, translates its
  arguments and forwards the call to the handle. What the handle answers to
  \<open>sync_read\<close>, \<open>set_half_turn_homings\<close> and \<open>record_ranges_of_motion\<close> is
  decided by code that is not among the sources, so the answer is a parameter
  of the operation: a function of the handle and of the arguments it is called
  with.
\<close>

text \<open>\<open>FeetechBusView.write\<close> (\<open>write\<close> is a reserved word of the theory language).\<close>

definition view_write ::
  "'n FeetechBusView \<Rightarrow> ('n, 'v, 'c) FeetechBusManager \<Rightarrow> string \<Rightarrow> target \<Rightarrow> 'v \<Rightarrow> bool \<Rightarrow> int \<Rightarrow>
   (error + unit) \<times> ('n, 'v, 'c) FeetechBusManager" where
  "view_write v m data_name motor val nrm num_retry =
     (case bus m of
        None \<Rightarrow> (Inl uninitialized, m)
      | Some b \<Rightarrow>
          (case translate_motor v (Some motor) of
             Inl e \<Rightarrow> (Inl e, m)
           | Inr tgt \<Rightarrow>
               (Inr (), m\<lparr>bus := Some (bus_receive (Write data_name tgt val nrm num_retry) b)\<rparr>)))"

definition sync_write ::
  "'n FeetechBusView \<Rightarrow> ('n, 'v, 'c) FeetechBusManager \<Rightarrow> string \<Rightarrow> (string, 'v) dict \<Rightarrow> bool \<Rightarrow> int \<Rightarrow>
   (error + unit) \<times> ('n, 'v, 'c) FeetechBusManager" where
  "sync_write v m data_name values nrm num_retry =
     (case bus m of
        None \<Rightarrow> (Inl uninitialized, m)
      | Some b \<Rightarrow>
          (case translate_dict v values of
             Inl e \<Rightarrow> (Inl e, m)
           | Inr payload \<Rightarrow>
               (Inr (), m\<lparr>bus := Some (bus_receive (SyncWrite data_name payload nrm num_retry) b)\<rparr>)))"

definition sync_read ::
  "(('n, 'v, 'c) FeetechMotorsBus \<Rightarrow> string \<Rightarrow> string list \<Rightarrow> bool \<Rightarrow> int \<Rightarrow> (string, 'v) dict) \<Rightarrow>
   'n FeetechBusView \<Rightarrow> ('n, 'v, 'c) FeetechBusManager \<Rightarrow> string \<Rightarrow> motors_arg \<Rightarrow> bool \<Rightarrow> int \<Rightarrow>
   (error + (string, 'v) dict) \<times> ('n, 'v, 'c) FeetechBusManager" where
  "sync_read bus_sync_read v m data_name motors nrm num_retry =
     (case bus m of
        None \<Rightarrow> (Inl uninitialized, m)
      | Some b \<Rightarrow>
          (case translate_motors v motors of
             Inl e \<Rightarrow> (Inl e, m)
           | Inr subs \<Rightarrow>
               (let result = bus_sync_read b data_name subs nrm num_retry
                in (Inr (map_dict_to_local v result),
                    m\<lparr>bus := Some (bus_receive (SyncRead data_name subs nrm num_retry) b)\<rparr>))))"

definition set_half_turn_homings ::
  "(('n, 'v, 'c) FeetechMotorsBus \<Rightarrow> string list \<Rightarrow> (string, int) dict) \<Rightarrow>
   'n FeetechBusView \<Rightarrow> ('n, 'v, 'c) FeetechBusManager \<Rightarrow> motors_arg \<Rightarrow>
   (error + (string, int) dict) \<times> ('n, 'v, 'c) FeetechBusManager" where
  "set_half_turn_homings bus_set_half_turn_homings v m motors =
     (case bus m of
        None \<Rightarrow> (Inl uninitialized, m)
      | Some b \<Rightarrow>
          (case translate_motors v motors of
             Inl e \<Rightarrow> (Inl e, m)
           | Inr subs \<Rightarrow>
               (let result = bus_set_half_turn_homings b subs
                in (Inr (map_dict_to_local v result),
                    m\<lparr>bus := Some (bus_receive (SetHalfTurnHomings subs) b)\<rparr>))))"

definition record_ranges_of_motion ::
  "(('n, 'v, 'c) FeetechMotorsBus \<Rightarrow> string list \<Rightarrow> (string, int) dict \<times> (string, int) dict) \<Rightarrow>
   'n FeetechBusView \<Rightarrow> ('n, 'v, 'c) FeetechBusManager \<Rightarrow> motors_arg \<Rightarrow>
   (error + (string, int) dict \<times> (string, int) dict) \<times> ('n, 'v, 'c) FeetechBusManager" where
  "record_ranges_of_motion bus_record_ranges_of_motion v m motors =
     (case bus m of
        None \<Rightarrow> (Inl uninitialized, m)
      | Some b \<Rightarrow>
          (case translate_motors v motors of
             Inl e \<Rightarrow> (Inl e, m)
           | Inr subs \<Rightarrow>
               (case bus_record_ranges_of_motion b subs of
                  (mins, maxes) \<Rightarrow>
                    (Inr (map_dict_to_local v mins, map_dict_to_local v maxes),
                     m\<lparr>bus := Some (bus_receive (RecordRangesOfMotion subs) b)\<rparr>))))"

definition write_calibration ::
  "'n FeetechBusView \<Rightarrow> ('n, 'v, 'c) FeetechBusManager \<Rightarrow> (string, 'c) dict \<Rightarrow>
   (error + unit) \<times> ('n, 'v, 'c) FeetechBusManager" where
  "write_calibration v m cal =
     (case bus m of
        None \<Rightarrow> (Inl uninitialized, m)
      | Some b \<Rightarrow>
          (case translate_dict v cal of
             Inl e \<Rightarrow> (Inl e, m)
           | Inr translated \<Rightarrow>
               (Inr (), m\<lparr>bus := Some (bus_receive (WriteCalibration translated) b)\<rparr>)))"

definition setup_motor ::
  "'n FeetechBusView \<Rightarrow> ('n, 'v, 'c) FeetechBusManager \<Rightarrow> target \<Rightarrow> int option \<Rightarrow> int option \<Rightarrow>
   (error + unit) \<times> ('n, 'v, 'c) FeetechBusManager" where
  "setup_motor v m motor initial_baudrate initial_id =
     (case bus m of
        None \<Rightarrow> (Inl uninitialized, m)
      | Some b \<Rightarrow>
          (case translate_motor v (Some motor) of
             Inl e \<Rightarrow> (Inl e, m)
           | Inr tgt \<Rightarrow>
               (Inr (), m\<lparr>bus := Some (bus_receive (SetupMotor tgt initial_baudrate initial_id) b)\<rparr>)))"

subsection \<open>A test double for the handle's answers\<close>

text \<open>
  Modelled from the spec: the test double of the round-trip property (the
  repository's tests are not among the sources), a Bus Handle that echoes what
  was stored. It answers a \<open>sync_read\<close> with
  the values that the \<open>sync_write\<close> calls it has received stored under the same
  \<open>data_name\<close> (a later write replaces an earlier value), for the motors asked
  for, and leaves out a motor that was never written.
\<close>

definition store_call ::
  "string \<Rightarrow> (string, 'v) dict \<Rightarrow> ('v, 'c) bus_call \<Rightarrow> (string, 'v) dict" where
  "store_call data_name acc c =
     (case c of
        SyncWrite dn payload nz nr \<Rightarrow>
          if dn = data_name then foldl (\<lambda>a e. dict_set (fst e) (snd e) a) acc payload else acc
      | _ \<Rightarrow> acc)"

definition echo_store :: "('n, 'v, 'c) FeetechMotorsBus \<Rightarrow> string \<Rightarrow> (string, 'v) dict" where
  "echo_store b data_name = foldl (store_call data_name) [] (bus_calls b)"

definition echo_sync_read ::
  "('n, 'v, 'c) FeetechMotorsBus \<Rightarrow> string \<Rightarrow> string list \<Rightarrow> bool \<Rightarrow> int \<Rightarrow> (string, 'v) dict" where
  "echo_sync_read b data_name motors nrm num_retry =
     foldl (\<lambda>acc g. case map_of (echo_store b data_name) g of
                       None \<Rightarrow> acc
                     | Some x \<Rightarrow> dict_set g x acc) [] motors"

section \<open>Auxiliary notions for the statements\<close>

text \<open>The Global Calibration Table after the loop has run over \<open>items\<close>; the
  motors of a registration that precede its first colliding motor; and the
  bus-global name of that first colliding motor.\<close>

definition seed_all ::
  "(string, 'c) dict option \<Rightarrow> string \<Rightarrow> (string \<times> 'n Motor) list \<Rightarrow> (string, 'c) dict \<Rightarrow> (string, 'c) dict" where
  "seed_all ic prefix items cal = foldl (\<lambda>acc e. seeded ic (fst e) (prefix @ fst e) acc) cal items"

definition committed_before ::
  "string \<Rightarrow> ('n, 'v, 'c) FeetechBusManager \<Rightarrow> (string \<times> 'n Motor) list \<Rightarrow> (string \<times> 'n Motor) list" where
  "committed_before prefix m lms =
     takeWhile (\<lambda>e. \<not> dict_contains (prefix @ fst e) (motor_defs m)) lms"

definition first_collision ::
  "string \<Rightarrow> ('n, 'v, 'c) FeetechBusManager \<Rightarrow> (string \<times> 'n Motor) list \<Rightarrow> string option" where
  "first_collision prefix m lms =
     (case dropWhile (\<lambda>e. \<not> dict_contains (prefix @ fst e) (motor_defs m)) lms of
        [] \<Rightarrow> None
      | e # rest \<Rightarrow> Some (prefix @ fst e))"

section \<open>A concrete assembly\<close>

text \<open>The scenario of the specification: component \<open>left\<close> (prefix \<open>left_\<close>, one
  motor \<open>shoulder\<close> with id 1) and component \<open>right\<close> (prefix \<open>right_\<close>, motor
  \<open>shoulder\<close> with id 1, offset 6) on one manager. Normalization modes are
  strings here, register values and calibration payloads integers.\<close>

definition ex_config :: SharedBusAssemblyConfig where
  "ex_config = \<lparr>bus_type = ''feetech'', port = ''/dev/ttyACM0'', protocol_version = 0,
                 handshake_on_connect = True\<rparr>"

definition ex_motor :: "int \<Rightarrow> string Motor" where
  "ex_motor i = \<lparr>motor_id = i, model = ''sts3215'', norm_mode = ''degrees''\<rparr>"

definition ex_m0 :: "(string, int, int) FeetechBusManager" where
  "ex_m0 = FeetechBusManager_init ''shared'' ex_config"

definition ex_left :: "string FeetechBusView" where
  "ex_left = \<lparr>local_motors = [(''shoulder'', ex_motor 1)],
              local_to_bus = [(''shoulder'', ''left_shoulder'')], connected = False\<rparr>"

definition ex_m1 :: "(string, int, int) FeetechBusManager" where
  "ex_m1 = \<lparr>name = ''shared'', config = ex_config,
            motor_defs = [(''left_shoulder'', ex_motor 1)], calibration = [],
            views = [(''left'', ex_left)], bus = None, refcount = 0\<rparr>"

definition ex_right :: "string FeetechBusView" where
  "ex_right = \<lparr>local_motors = [(''shoulder'', ex_motor 7)],
               local_to_bus = [(''shoulder'', ''right_shoulder'')], connected = False\<rparr>"

definition ex_m2 :: "(string, int, int) FeetechBusManager" where
  "ex_m2 = \<lparr>name = ''shared'', config = ex_config,
            motor_defs = [(''left_shoulder'', ex_motor 1), (''right_shoulder'', ex_motor 7)],
            calibration = [(''right_shoulder'', 100)],
            views = [(''left'', ex_left), (''right'', ex_right)], bus = None, refcount = 0\<rparr>"

definition ex_colliding :: "(string, string Motor) dict" where
  "ex_colliding = [(''elbow'', ex_motor 2), (''shoulder'', ex_motor 1)]"

section \<open>Call sequences\<close>

text \<open>Two \<open>disconnect\<close> calls in a row (an exception of the first one ends the
  sequence), and \<open>connect\<close>, \<open>connect\<close>, \<open>disconnect\<close> on one view.\<close>

definition disconnect_twice ::
  "bool \<Rightarrow> 'n FeetechBusView \<Rightarrow> ('n, 'v, 'c) FeetechBusManager \<Rightarrow>
   (error + unit) \<times> ('n, 'v, 'c) FeetechBusManager \<times> 'n FeetechBusView" where
  "disconnect_twice d v m =
     (case disconnect d v m of
        (Inl e, m1, v1) \<Rightarrow> (Inl e, m1, v1)
      | (Inr u, m1, v1) \<Rightarrow> disconnect d v1 m1)"

definition connect_connect_disconnect ::
  "bool option \<Rightarrow> bool option \<Rightarrow> bool \<Rightarrow> 'n FeetechBusView \<Rightarrow> ('n, 'v, 'c) FeetechBusManager \<Rightarrow>
   (error + unit) \<times> ('n, 'v, 'c) FeetechBusManager \<times> 'n FeetechBusView" where
  "connect_connect_disconnect h1 h2 d1 v m =
     (case connect h1 v m of
        (m1, v1) \<Rightarrow> (case connect h2 v1 m1 of (m2, v2) \<Rightarrow> disconnect d1 v2 m2))"

text \<open>The assembly after \<open>left.connect()\<close>, and after \<open>left.disconnect()\<close>.\<close>

definition ex_bus :: "(string, int, int) FeetechMotorsBus" where
  "ex_bus = \<lparr>bus_port = ''/dev/ttyACM0'',
             bus_motors = [(''left_shoulder'', ex_motor 1), (''right_shoulder'', ex_motor 7)],
             bus_calibration = [(''right_shoulder'', 100)], bus_protocol_version = 0,
             bus_is_connected = True, bus_calls = [Connect True]\<rparr>"

definition ex_m3 :: "(string, int, int) FeetechBusManager" where
  "ex_m3 = ex_m2\<lparr>bus := Some ex_bus, refcount := 1\<rparr>"

definition ex_left_on :: "string FeetechBusView" where
  "ex_left_on = ex_left\<lparr>connected := True\<rparr>"

definition ex_m4 :: "(string, int, int) FeetechBusManager" where
  "ex_m4 = ex_m2\<lparr>bus := Some (ex_bus\<lparr>bus_is_connected := False,
                      bus_calls := [Connect True, DisableTorque [''left_shoulder''] 0,
                                    Disconnect True]\<rparr>),
                refcount := 0\<rparr>"

section \<open>Calibration seen through the handle\<close>

text \<open>The calibration table that the Bus Handle holds (\<open>bus.calibration\<close>), empty
  while there is no handle; and the manager after a registration that follows
  the first \<open>connect\<close>.\<close>

definition handle_calibration :: "('n, 'v, 'c) FeetechBusManager \<Rightarrow> (string, 'c) dict" where
  "handle_calibration m = (case bus m of None \<Rightarrow> [] | Some b \<Rightarrow> bus_calibration b)"

definition ex_late :: "(string, int, int) FeetechBusManager" where
  "ex_late =
     snd (register_component (fst (connect None ex_left ex_m1)) ''right''
            [(''shoulder'', ex_motor 1)] ''right_'' 6 (Some [(''shoulder'', 100)]))"

section \<open>The bus-global name of a local motor\<close>

text \<open>\<open>self.local_to_bus[n]\<close> for a local name \<open>n\<close> of the view (the empty string
  stands in for a name the view does not know, for which the source raises).\<close>

definition bus_name_of :: "'n FeetechBusView \<Rightarrow> string \<Rightarrow> string" where
  "bus_name_of v n = (case map_of (local_to_bus v) n of None \<Rightarrow> [] | Some g \<Rightarrow> g)"

section \<open>Batch write followed by batch read\<close>

text \<open>\<open>view.sync_write(data_name, values)\<close> followed by
  \<open>view.sync_read(data_name, list(values))\<close> against the echoing double, and a view
  with two motors for it.\<close>

definition write_then_read ::
  "'n FeetechBusView \<Rightarrow> ('n, 'v, 'c) FeetechBusManager \<Rightarrow> string \<Rightarrow> (string, 'v) dict \<Rightarrow>
   bool \<Rightarrow> int \<Rightarrow> bool \<Rightarrow> int \<Rightarrow>
   (error + (string, 'v) dict) \<times> ('n, 'v, 'c) FeetechBusManager" where
  "write_then_read v m data_name vals nrm num_retry nrm2 num_retry2 =
     (case sync_write v m data_name vals nrm num_retry of
        (Inl e, m1) \<Rightarrow> (Inl e, m1)
      | (Inr u, m1) \<Rightarrow>
          sync_read echo_sync_read v m1 data_name (MotorList (dict_keys vals)) nrm2 num_retry2)"

definition ex_arm :: "string FeetechBusView" where
  "ex_arm = \<lparr>local_motors = [(''shoulder'', ex_motor 1), (''elbow'', ex_motor 2)],
             local_to_bus = [(''shoulder'', ''left_shoulder''), (''elbow'', ''left_elbow'')],
             connected = True\<rparr>"

section \<open>The lifecycle invariant\<close>

text \<open>The reference count is not negative, and a handle that is connected is true
  and held by a positive count.\<close>

definition lifecycle_ok :: "('n, 'v, 'c) FeetechBusManager \<Rightarrow> bool" where
  "lifecycle_ok m =
     (0 \<le> refcount m \<and> (\<not> handle_connected m \<or> (0 < refcount m \<and> handle_true m)))"

section \<open>Registration\<close>

lemmas ex_defs = ex_config_def ex_motor_def ex_m0_def ex_left_def ex_m1_def ex_right_def ex_m2_def
  ex_colliding_def FeetechBusManager_init_def FeetechBusView_init_def Let_def dict_contains_def
  dict_keys_def bus_truth_def

lemma dict_set_absent: "k \<notin> fst ` set d \<Longrightarrow> dict_set k v d = d @ [(k, v)]"
  by (induction d) auto

lemma dict_contains_iff: "dict_contains k d \<longleftrightarrow> k \<in> fst ` set d"
  by (simp add: dict_contains_def dict_keys_def)

lemma register_loop_collide:
  "dict_contains (prefix @ n) (motor_defs m) \<Longrightarrow>
   register_loop prefix offs ic ((n, mot) # rest) m lc mp =
     (Inl (ValueError (collision_message (name m) (prefix @ n))), m)"
  by simp

lemma register_loop_step:
  assumes "\<not> dict_contains (prefix @ n) (motor_defs m)"
  shows "register_loop prefix offs ic ((n, mot) # rest) m lc mp =
     register_loop prefix offs ic rest
       (m\<lparr>motor_defs := dict_set (prefix @ n) (renumbered offs mot) (motor_defs m),
          calibration := seeded ic n (prefix @ n) (calibration m)\<rparr>)
       (dict_set n (renumbered offs mot) lc) (dict_set n (prefix @ n) mp)"
proof (cases ic)
  case None
  with assms show ?thesis by (simp add: Let_def seeded_def renumbered_def)
next
  case (Some d)
  with assms show ?thesis
    by (cases "map_of d n") (simp_all add: Let_def seeded_def renumbered_def)
qed

lemma register_loop_append:
  "register_loop prefix offs ic (xs @ ys) m lc mp =
     (case register_loop prefix offs ic xs m lc mp of
        (Inl e, m') \<Rightarrow> (Inl e, m')
      | (Inr (lc', mp'), m') \<Rightarrow> register_loop prefix offs ic ys m' lc' mp')"
proof (induction xs arbitrary: m lc mp)
  case Nil
  show ?case by simp
next
  case (Cons x xs)
  obtain n mot where x: "x = (n, mot)" by (cases x)
  show ?case
  proof (cases "dict_contains (prefix @ n) (motor_defs m)")
    case True
    then show ?thesis unfolding x by simp
  next
    case False
    show ?thesis
      unfolding x append_Cons register_loop_step [OF False] Cons.IH ..
  qed
qed

lemma register_loop_Inr:
  assumes "register_loop prefix offs ic items m lc mp = (Inr (lc', mp'), m')"
    and "\<forall>n \<in> fst ` set lc. prefix @ n \<in> fst ` set (motor_defs m)"
    and "\<forall>n \<in> fst ` set mp. prefix @ n \<in> fst ` set (motor_defs m)"
  shows "motor_defs m' = motor_defs m @ map (global_entry prefix offs) items
       \<and> calibration m' = seed_all ic prefix items (calibration m)
       \<and> lc' = lc @ map (local_entry offs) items
       \<and> mp' = mp @ map (mapping_entry prefix) items
       \<and> distinct (map fst items)
       \<and> (\<forall>n \<in> fst ` set items. prefix @ n \<notin> fst ` set (motor_defs m))
       \<and> name m' = name m \<and> config m' = config m \<and> views m' = views m
       \<and> bus m' = bus m \<and> refcount m' = refcount m"
  using assms
proof (induction items arbitrary: m lc mp)
  case Nil
  then show ?case by (simp add: seed_all_def)
next
  case (Cons x xs)
  obtain n mot where x: "x = (n, mot)" by (cases x)
  let ?g = "prefix @ n"
  have nc: "\<not> dict_contains ?g (motor_defs m)"
  proof
    assume "dict_contains ?g (motor_defs m)"
    from register_loop_collide [OF this] Cons.prems(1) show False unfolding x by simp
  qed
  then have nc': "?g \<notin> fst ` set (motor_defs m)" by (simp add: dict_contains_iff)
  define m2 where "m2 = m\<lparr>motor_defs := dict_set ?g (renumbered offs mot) (motor_defs m),
          calibration := seeded ic n ?g (calibration m)\<rparr>"
  have md2: "motor_defs m2 = motor_defs m @ [global_entry prefix offs x]"
    using nc' by (simp add: m2_def dict_set_absent global_entry_def x)
  have rest2: "name m2 = name m" "config m2 = config m" "views m2 = views m"
    "bus m2 = bus m" "refcount m2 = refcount m"
    "calibration m2 = seeded ic n ?g (calibration m)"
    by (simp_all add: m2_def)
  have nlc: "n \<notin> fst ` set lc" and nmp: "n \<notin> fst ` set mp"
    using Cons.prems(2,3) nc' by auto
  have step: "register_loop prefix offs ic xs m2 (lc @ [local_entry offs x])
                (mp @ [mapping_entry prefix x]) = (Inr (lc', mp'), m')"
    using Cons.prems(1) unfolding x register_loop_step [OF nc]
    by (simp add: m2_def dict_set_absent nlc nmp local_entry_def mapping_entry_def)
  have inv1: "\<forall>k \<in> fst ` set (lc @ [local_entry offs x]). prefix @ k \<in> fst ` set (motor_defs m2)"
    using Cons.prems(2) by (auto simp: md2 local_entry_def global_entry_def x)
  have inv2: "\<forall>k \<in> fst ` set (mp @ [mapping_entry prefix x]). prefix @ k \<in> fst ` set (motor_defs m2)"
    using Cons.prems(3) by (auto simp: md2 mapping_entry_def global_entry_def x)
  note IH = Cons.IH [OF step inv1 inv2]
  have "n \<notin> fst ` set xs"
  proof
    assume "n \<in> fst ` set xs"
    with IH have "prefix @ n \<notin> fst ` set (motor_defs m2)" by blast
    then show False by (simp add: md2 global_entry_def x)
  qed
  moreover have "\<forall>k \<in> fst ` set xs. prefix @ k \<notin> fst ` set (motor_defs m)"
    using IH by (auto simp: md2)
  ultimately show ?case
    using IH nc' by (simp add: md2 rest2 x seed_all_def)
qed

lemma register_loop_succeeds:
  assumes "distinct (map fst items)"
    and "\<forall>n \<in> fst ` set items. prefix @ n \<notin> fst ` set (motor_defs m)"
  shows "\<exists>r m'. register_loop prefix offs ic items m lc mp = (Inr r, m')"
  using assms
proof (induction items arbitrary: m lc mp)
  case Nil
  then show ?case by simp
next
  case (Cons x xs)
  obtain n mot where x: "x = (n, mot)" by (cases x)
  have nc: "prefix @ n \<notin> fst ` set (motor_defs m)" using Cons.prems(2) by (simp add: x)
  then have nc': "\<not> dict_contains (prefix @ n) (motor_defs m)" by (simp add: dict_contains_iff)
  have d: "distinct (map fst xs)" and nn: "n \<notin> fst ` set xs" using Cons.prems(1) by (auto simp: x)
  define m2 where "m2 = m\<lparr>motor_defs := dict_set (prefix @ n) (renumbered offs mot) (motor_defs m),
          calibration := seeded ic n (prefix @ n) (calibration m)\<rparr>"
  have fresh: "\<forall>k \<in> fst ` set xs. prefix @ k \<notin> fst ` set (motor_defs m2)"
    using Cons.prems(2) nn nc by (auto simp: m2_def dict_set_absent x)
  from Cons.IH [OF d fresh] show ?case
    unfolding x register_loop_step [OF nc'] m2_def .
qed

lemma register_component_Inr:
  assumes "register_component m cname lms prefix offs ic = (Inr view, m')"
  shows "motor_defs m' = motor_defs m @ map (global_entry prefix offs) lms
       \<and> calibration m' = seed_all ic prefix lms (calibration m)
       \<and> view = FeetechBusView_init (map (local_entry offs) lms) (map (mapping_entry prefix) lms)
       \<and> distinct (map fst lms)
       \<and> (\<forall>n \<in> fst ` set lms. prefix @ n \<notin> fst ` set (motor_defs m))
       \<and> views m' = dict_set cname view (views m)
       \<and> name m' = name m \<and> config m' = config m
       \<and> bus m' = bus m \<and> refcount m' = refcount m"
proof -
  obtain r m1 where loop: "register_loop prefix offs ic lms m [] [] = (r, m1)"
    by (cases "register_loop prefix offs ic lms m [] []")
  with assms obtain lc mp where r: "r = Inr (lc, mp)"
    by (cases r) (auto simp: register_component_def)
  from register_loop_Inr [OF loop [unfolded r]]
  have facts: "motor_defs m1 = motor_defs m @ map (global_entry prefix offs) lms"
    "calibration m1 = seed_all ic prefix lms (calibration m)"
    "lc = map (local_entry offs) lms" "mp = map (mapping_entry prefix) lms"
    "distinct (map fst lms)" "\<forall>n \<in> fst ` set lms. prefix @ n \<notin> fst ` set (motor_defs m)"
    "name m1 = name m" "config m1 = config m" "views m1 = views m"
    "bus m1 = bus m" "refcount m1 = refcount m"
    by simp_all
  from assms loop r have "view = FeetechBusView_init lc mp"
    and "m' = m1\<lparr>views := dict_set cname view (views m1)\<rparr>"
    by (auto simp: register_component_def Let_def)
  with facts show ?thesis by simp
qed

lemma map_of_entries:
  assumes "distinct (map fst lms)" and "e \<in> set lms"
  shows "map_of (map (global_entry prefix offs) lms) (prefix @ fst e) = Some (renumbered offs (snd e))"
    and "map_of (map (local_entry offs) lms) (fst e) = Some (renumbered offs (snd e))"
    and "map_of (map (mapping_entry prefix) lms) (fst e) = Some (prefix @ fst e)"
  using assms
  by (induction lms; force simp: global_entry_def local_entry_def mapping_entry_def)+

lemma first_collision_split:
  assumes "first_collision prefix m lms = Some g"
  obtains e post where "lms = committed_before prefix m lms @ e # post"
    and "g = prefix @ fst e" and "dict_contains g (motor_defs m)"
proof -
  let ?P = "\<lambda>e. \<not> dict_contains (prefix @ fst e) (motor_defs m)"
  from assms obtain e post where dw: "dropWhile ?P lms = e # post" and g: "g = prefix @ fst e"
    by (auto simp: first_collision_def split: list.splits)
  have "lms = takeWhile ?P lms @ dropWhile ?P lms" by simp
  then have 1: "lms = committed_before prefix m lms @ e # post"
    by (simp add: committed_before_def dw)
  from dw have "\<not> ?P (hd (dropWhile ?P lms))"
    by (metis hd_dropWhile list.distinct(1))
  then have 2: "dict_contains g (motor_defs m)" by (simp add: dw g)
  from 1 g 2 show thesis by (rule that)
qed

lemma first_collision_exists:
  "(first_collision prefix m lms \<noteq> None) =
   (\<exists>n \<in> set (dict_keys lms). dict_contains (prefix @ n) (motor_defs m))"
proof -
  define dw where "dw = dropWhile (\<lambda>e. \<not> dict_contains (prefix @ fst e) (motor_defs m)) lms"
  have A: "(dw = []) = (\<forall>e \<in> set lms. \<not> dict_contains (prefix @ fst e) (motor_defs m))"
    unfolding dw_def by (simp add: dropWhile_eq_Nil_conv)
  have B: "(first_collision prefix m lms \<noteq> None) = (dw \<noteq> [])"
    unfolding first_collision_def dw_def [symmetric] by (cases dw) simp_all
  show ?thesis unfolding B A by (auto simp: dict_keys_def)
qed

lemma register_component_raises:
  assumes "distinct (dict_keys lms)"
    and "first_collision prefix m lms = Some g"
  shows "register_component m component_name lms prefix offs ic =
           (Inl (ValueError (collision_message (name m) g)),
            m\<lparr>motor_defs := motor_defs m @ map (global_entry prefix offs) (committed_before prefix m lms),
              calibration := seed_all ic prefix (committed_before prefix m lms) (calibration m)\<rparr>)"
proof -
  let ?pre = "committed_before prefix m lms"
  from first_collision_split [OF assms(2)] obtain e post
    where split: "lms = ?pre @ e # post" and g: "g = prefix @ fst e"
      and coll: "dict_contains g (motor_defs m)" by blast
  have "distinct (map fst (?pre @ e # post))"
    using assms(1) split by (simp add: dict_keys_def)
  then have d: "distinct (map fst ?pre)" by simp
  have fresh: "\<forall>n \<in> fst ` set ?pre. prefix @ n \<notin> fst ` set (motor_defs m)"
    by (auto simp: committed_before_def dict_contains_iff dest: set_takeWhileD)
  from register_loop_succeeds [OF d fresh] obtain lc mp m1
    where pre: "register_loop prefix offs ic ?pre m [] [] = (Inr (lc, mp), m1)"
    by fastforce
  from register_loop_Inr [OF pre]
  have m1: "motor_defs m1 = motor_defs m @ map (global_entry prefix offs) ?pre"
    "calibration m1 = seed_all ic prefix ?pre (calibration m)"
    "name m1 = name m" "config m1 = config m" "views m1 = views m"
    "bus m1 = bus m" "refcount m1 = refcount m"
    by simp_all
  have eq: "m1 = m\<lparr>motor_defs := motor_defs m @ map (global_entry prefix offs) ?pre,
              calibration := seed_all ic prefix ?pre (calibration m)\<rparr>"
    by (rule FeetechBusManager.equality) (simp_all add: m1)
  have coll1: "dict_contains (prefix @ fst e) (motor_defs m1)"
    using coll by (auto simp: m1 dict_contains_iff g)
  have "register_loop prefix offs ic (?pre @ e # post) m [] [] =
          (Inl (ValueError (collision_message (name m) g)), m1)"
    unfolding register_loop_append pre
    using register_loop_collide [OF coll1, of offs ic "snd e" post lc mp]
    by (simp add: m1 g)
  then have "register_loop prefix offs ic lms m [] [] =
          (Inl (ValueError (collision_message (name m) g)), m1)"
    using split by simp
  then show ?thesis
    by (simp add: register_component_def eq)
qed


lemma register_component_succeeds:
  assumes "distinct (dict_keys lms)"
    and "\<forall>n \<in> set (dict_keys lms). \<not> dict_contains (prefix @ n) (motor_defs m)"
  shows "\<exists>view m'. register_component m component_name lms prefix offs ic = (Inr view, m')"
proof -
  from assms have "distinct (map fst lms)"
    and "\<forall>n \<in> fst ` set lms. prefix @ n \<notin> fst ` set (motor_defs m)"
    by (auto simp: dict_keys_def dict_contains_iff)
  from register_loop_succeeds [OF this]
  obtain r m1 where "register_loop prefix offs ic lms m [] [] = (Inr r, m1)" by blast
  then show ?thesis
    by (cases r) (simp add: register_component_def Let_def)
qed

lemma ex_register_left:
  "register_component ex_m0 ''left'' [(''shoulder'', ex_motor 1)] ''left_'' 0 None = (Inr ex_left, ex_m1)"
  by (simp add: register_component_def ex_defs)

lemma ex_register_right:
  "register_component ex_m1 ''right'' [(''shoulder'', ex_motor 1)] ''right_'' 6
     (Some [(''shoulder'', 100)]) = (Inr ex_right, ex_m2)"
  by (simp add: register_component_def ex_defs)

text \<open>
  C1, as amended. The claim says that a registration one of whose bus-global
  names is already in the Global Namespace raises the collision error and
  commits nothing. The loop of \<open>register_component\<close> writes each motor before it
  looks at the next one and has no rollback: when a computed name collides, the
  call raises \<open>ValueError\<close> (the collision error of the source) naming the first
  colliding bus-global name, no view is registered, handle and reference count
  are untouched, and the Global Namespace is the old one followed by the
  renumbered motors that precede the first colliding motor in the input
  dictionary, with their initial calibrations seeded in the Global Calibration
  Table. Namespace and table are exactly what they were before the call when
  no motor precedes the first colliding one.
\<close>

theorem register_component_collision:
  assumes "distinct (dict_keys lms)"
    and "\<exists>n \<in> set (dict_keys lms). dict_contains (prefix @ n) (motor_defs m)"
  shows "\<exists>g. first_collision prefix m lms = Some g \<and> dict_contains g (motor_defs m)
       \<and> register_component m component_name lms prefix offs ic =
           (Inl (ValueError (collision_message (name m) g)),
            m\<lparr>motor_defs :=
                 motor_defs m @ map (global_entry prefix offs) (committed_before prefix m lms),
              calibration := seed_all ic prefix (committed_before prefix m lms) (calibration m)\<rparr>)
       \<and> (committed_before prefix m lms = [] \<longrightarrow>
            snd (register_component m component_name lms prefix offs ic) = m)"
proof -
  from assms(2) have "first_collision prefix m lms \<noteq> None"
    using first_collision_exists [of prefix m lms] by blast
  then obtain g where g: "first_collision prefix m lms = Some g" by blast
  from first_collision_split [OF g] have coll: "dict_contains g (motor_defs m)" by blast
  note R = register_component_raises [OF assms(1) g, of component_name offs ic]
  have "snd (register_component m component_name lms prefix offs ic) = m"
    if "committed_before prefix m lms = []"
    unfolding R using that by (simp add: seed_all_def)
  with g coll R show ?thesis by blast
qed

theorem register_component_collision_witness:
  "distinct (dict_keys ex_colliding)
   \<and> (\<exists>n \<in> set (dict_keys ex_colliding). dict_contains (''left_'' @ n) (motor_defs ex_m1))
   \<and> register_component ex_m1 ''left2'' ex_colliding ''left_'' 0 (Some [(''elbow'', 5)]) =
       (Inl (ValueError (collision_message ''shared'' ''left_shoulder'')),
        ex_m1\<lparr>motor_defs := [(''left_shoulder'', ex_motor 1), (''left_elbow'', ex_motor 2)],
              calibration := [(''left_elbow'', 5)]\<rparr>)"
  using register_component_collision [of ex_colliding "''left_''" ex_m1 "''left2''" 0
      "Some [(''elbow'', 5)]"]
  by (simp add: register_component_def ex_defs)

text \<open>
  C1 as stated fails: the collision on \<open>left_shoulder\<close> is raised for the second
  motor of the input dictionary, after \<open>left_elbow\<close> and its calibration have
  been written.
\<close>

theorem register_component_not_atomic:
  "dict_contains (''left_'' @ ''shoulder'') (motor_defs ex_m1)
   \<and> fst (register_component ex_m1 ''left2'' ex_colliding ''left_'' 0 (Some [(''elbow'', 5)])) =
       Inl (ValueError (collision_message ''shared'' ''left_shoulder''))
   \<and> motor_defs (snd (register_component ex_m1 ''left2'' ex_colliding ''left_'' 0
        (Some [(''elbow'', 5)]))) =
       [(''left_shoulder'', ex_motor 1), (''left_elbow'', ex_motor 2)]
   \<and> motor_defs ex_m1 = [(''left_shoulder'', ex_motor 1)]
   \<and> calibration (snd (register_component ex_m1 ''left2'' ex_colliding ''left_'' 0
        (Some [(''elbow'', 5)]))) = [(''left_elbow'', 5)]
   \<and> calibration ex_m1 = []"
  by (simp add: register_component_def ex_defs)

text \<open>
  C2. A successful \<open>register_component\<close> with prefix \<open>prefix\<close> and offset \<open>offs\<close>
  maps, for every local motor \<open>(n, motor)\<close>, the key \<open>prefix @ n\<close> of the Global
  Namespace to the motor with id \<open>motor_id motor + offs\<close> and the same model and
  normalization mode; the returned view holds the local names with the offset
  ids, and its local-to-global map sends each local name \<open>n\<close> to \<open>prefix @ n\<close>.
\<close>

theorem register_component_success:
  assumes "register_component m component_name lms prefix offs ic = (Inr view, m')"
  shows "(\<forall>e \<in> set lms.
            map_of (motor_defs m') (prefix @ fst e) =
              Some \<lparr>motor_id = motor_id (snd e) + offs, model = model (snd e),
                    norm_mode = norm_mode (snd e)\<rparr>
          \<and> map_of (local_motors view) (fst e) =
              Some \<lparr>motor_id = motor_id (snd e) + offs, model = model (snd e),
                    norm_mode = norm_mode (snd e)\<rparr>
          \<and> map_of (local_to_bus view) (fst e) = Some (prefix @ fst e))
       \<and> dict_keys (local_motors view) = dict_keys lms
       \<and> dict_keys (local_to_bus view) = dict_keys lms
       \<and> dict_keys (motor_defs m') = dict_keys (motor_defs m) @ map (\<lambda>n. prefix @ n) (dict_keys lms)"
proof -
  note R = register_component_Inr [OF assms]
  from R have d: "distinct (map fst lms)" by simp
  from R have fresh: "\<forall>n \<in> fst ` set lms. prefix @ n \<notin> fst ` set (motor_defs m)" by simp
  have "map_of (motor_defs m') (prefix @ fst e) = Some (renumbered offs (snd e))"
    if "e \<in> set lms" for e
  proof -
    from that fresh have "map_of (motor_defs m) (prefix @ fst e) = None"
      by (simp add: map_of_eq_None_iff)
    with R map_of_entries(1) [OF d that] show ?thesis
      by (simp add: map_add_def map_of_append)
  qed
  moreover have "map_of (local_motors view) (fst e) = Some (renumbered offs (snd e))"
    "map_of (local_to_bus view) (fst e) = Some (prefix @ fst e)" if "e \<in> set lms" for e
    using R map_of_entries(2,3) [OF d that] by (simp_all add: FeetechBusView_init_def)
  moreover have "dict_keys (local_motors view) = dict_keys lms"
    "dict_keys (local_to_bus view) = dict_keys lms"
    "dict_keys (motor_defs m') = dict_keys (motor_defs m) @ map (\<lambda>n. prefix @ n) (dict_keys lms)"
    using R by (simp_all add: FeetechBusView_init_def dict_keys_def comp_def local_entry_def
        mapping_entry_def global_entry_def)
  ultimately show ?thesis by (simp add: renumbered_def)
qed



theorem register_component_success_witness:
  "register_component ex_m1 ''right'' [(''shoulder'', ex_motor 1)] ''right_'' 6
     (Some [(''shoulder'', 100)]) = (Inr ex_right, ex_m2)
   \<and> map_of (motor_defs ex_m2) ''right_shoulder'' =
       Some \<lparr>motor_id = 7, model = ''sts3215'', norm_mode = ''degrees''\<rparr>
   \<and> map_of (local_motors ex_right) ''shoulder'' =
       Some \<lparr>motor_id = 7, model = ''sts3215'', norm_mode = ''degrees''\<rparr>
   \<and> map_of (local_to_bus ex_right) ''shoulder'' = Some ''right_shoulder''"
  using register_component_success [OF ex_register_right] ex_register_right
  by (simp add: ex_motor_def)

section \<open>Connection lifecycle\<close>

lemma calls_of_ensure_bus [simp]: "calls_of (ensure_bus m) = calls_of m"
  by (cases "bus m") (simp_all add: ensure_bus_def calls_of_def FeetechMotorsBus_init_def Let_def)

lemma acquire_first:
  assumes "refcount m = 0" and "\<not> manager_is_connected m" and "handle_true m"
  shows "calls_of (acquire h m) = calls_of m @ [Connect (handshake_flag_of m h)]"
    and "refcount (acquire h m) = 1"
    and "manager_is_connected (acquire h m)"
    and "handle_true (acquire h m)"
    and "config (acquire h m) = config m"
proof -
  have "calls_of (acquire h m) = calls_of m @ [Connect (handshake_flag_of m h)]
       \<and> refcount (acquire h m) = 1
       \<and> manager_is_connected (acquire h m)
       \<and> handle_true (acquire h m)
       \<and> config (acquire h m) = config m"
  proof (cases "bus m")
    case None
    with assms show ?thesis
      by (simp add: acquire_def ensure_bus_def calls_of_def manager_is_connected_def Let_def
          handle_true_def bus_truth_def FeetechMotorsBus_init_def bus_connect_def
          bus_receive_def handshake_flag_of_def split: option.splits)
  next
    case (Some b)
    with assms show ?thesis
      by (simp add: acquire_def ensure_bus_def calls_of_def manager_is_connected_def Let_def
          handle_true_def bus_truth_def bus_connect_def bus_receive_def handshake_flag_of_def
          split: option.splits)
  qed
  then show "calls_of (acquire h m) = calls_of m @ [Connect (handshake_flag_of m h)]"
    and "refcount (acquire h m) = 1"
    and "manager_is_connected (acquire h m)"
    and "handle_true (acquire h m)"
    and "config (acquire h m) = config m"
    by simp_all
qed

lemma acquire_again:
  assumes "refcount m \<noteq> 0"
  shows "calls_of (acquire h m) = calls_of m"
    and "refcount (acquire h m) = refcount m + 1"
    and "manager_is_connected (acquire h m) = manager_is_connected m"
    and "handle_true (acquire h m) = handle_true m"
    and "config (acquire h m) = config m"
proof -
  have "calls_of (acquire h m) = calls_of m
       \<and> refcount (acquire h m) = refcount m + 1
       \<and> manager_is_connected (acquire h m) = manager_is_connected m
       \<and> handle_true (acquire h m) = handle_true m
       \<and> config (acquire h m) = config m"
  proof (cases "bus m")
    case None
    with assms show ?thesis
      by (simp add: acquire_def ensure_bus_def calls_of_def manager_is_connected_def Let_def
          handle_true_def bus_truth_def FeetechMotorsBus_init_def)
  next
    case (Some b)
    with assms show ?thesis
      by (simp add: acquire_def ensure_bus_def calls_of_def manager_is_connected_def Let_def
          handle_true_def)
  qed
  then show "calls_of (acquire h m) = calls_of m"
    and "refcount (acquire h m) = refcount m + 1"
    and "manager_is_connected (acquire h m) = manager_is_connected m"
    and "handle_true (acquire h m) = handle_true m"
    and "config (acquire h m) = config m"
    by simp_all
qed

lemma acquires_again:
  assumes "0 < refcount m"
  shows "calls_of (acquires hs m) = calls_of m
       \<and> refcount (acquires hs m) = refcount m + int (length hs)
       \<and> manager_is_connected (acquires hs m) = manager_is_connected m
       \<and> handle_true (acquires hs m) = handle_true m"
  using assms
proof (induction hs arbitrary: m)
  case Nil
  then show ?case by (simp add: acquires_def)
next
  case (Cons h hs)
  from Cons.prems have ne: "refcount m \<noteq> 0" by simp
  have pos: "0 < refcount (acquire h m)" using Cons.prems acquire_again(2) [OF ne] by simp
  have "acquires (h # hs) m = acquires hs (acquire h m)" by (simp add: acquires_def)
  with Cons.IH [OF pos] acquire_again [OF ne, of h] show ?case by simp
qed

lemma acquires_first:
  assumes "refcount m = 0" and "\<not> manager_is_connected m" and "handle_true m" and "hs \<noteq> []"
  shows "calls_of (acquires hs m) = calls_of m @ [Connect (handshake_flag_of m (hd hs))]
       \<and> refcount (acquires hs m) = int (length hs)
       \<and> manager_is_connected (acquires hs m)
       \<and> handle_true (acquires hs m)"
proof -
  from assms(4) obtain h rest where hs: "hs = h # rest" by (cases hs) auto
  have pos: "0 < refcount (acquire h m)" using acquire_first(2) [OF assms(1,2,3)] by simp
  have "acquires hs m = acquires rest (acquire h m)" by (simp add: hs acquires_def)
  with acquires_again [OF pos, of rest] acquire_first [OF assms(1,2,3), of h]
  show ?thesis by (simp add: hs)
qed

lemma release_zero: "refcount m = 0 \<Longrightarrow> release d m = m"
  by (simp add: release_def)

lemma release_held:
  assumes "refcount m \<noteq> 0" and "refcount m \<noteq> 1"
  shows "calls_of (release d m) = calls_of m"
    and "refcount (release d m) = refcount m - 1"
    and "manager_is_connected (release d m) = manager_is_connected m"
    and "handle_true (release d m) = handle_true m"
proof -
  have "calls_of (release d m) = calls_of m
      \<and> refcount (release d m) = refcount m - 1
      \<and> manager_is_connected (release d m) = manager_is_connected m
      \<and> handle_true (release d m) = handle_true m"
    using assms
    by (cases "bus m")
       (simp_all add: release_def calls_of_def manager_is_connected_def handle_true_def Let_def)
  then show "calls_of (release d m) = calls_of m"
    and "refcount (release d m) = refcount m - 1"
    and "manager_is_connected (release d m) = manager_is_connected m"
    and "handle_true (release d m) = handle_true m"
    by simp_all
qed

lemma release_last:
  assumes "refcount m = 1" and "manager_is_connected m"
  shows "calls_of (release d m) = calls_of m @ [Disconnect d]"
    and "refcount (release d m) = 0"
    and "\<not> manager_is_connected (release d m)"
    and "\<not> handle_connected (release d m)"
proof -
  have "calls_of (release d m) = calls_of m @ [Disconnect d]
      \<and> refcount (release d m) = 0
      \<and> \<not> manager_is_connected (release d m)
      \<and> \<not> handle_connected (release d m)"
    using assms
    by (cases "bus m")
       (simp_all add: release_def calls_of_def manager_is_connected_def handle_connected_def
          Let_def bus_disconnect_def bus_receive_def)
  then show "calls_of (release d m) = calls_of m @ [Disconnect d]"
    and "refcount (release d m) = 0"
    and "\<not> manager_is_connected (release d m)"
    and "\<not> handle_connected (release d m)"
    by simp_all
qed

lemma releases_held:
  assumes "int (length ds) < refcount m"
  shows "calls_of (releases ds m) = calls_of m
       \<and> refcount (releases ds m) = refcount m - int (length ds)
       \<and> manager_is_connected (releases ds m) = manager_is_connected m"
  using assms
proof (induction ds arbitrary: m)
  case Nil
  then show ?case by (simp add: releases_def)
next
  case (Cons d ds)
  from Cons.prems have ne: "refcount m \<noteq> 0" "refcount m \<noteq> 1" by simp_all
  have lt: "int (length ds) < refcount (release d m)"
    using Cons.prems release_held(2) [OF ne] by simp
  have "releases (d # ds) m = releases ds (release d m)" by (simp add: releases_def)
  with Cons.IH [OF lt] release_held [OF ne, of d] show ?case by simp
qed

lemma releases_all:
  assumes "refcount m = int (length ds)" and "manager_is_connected m" and "ds \<noteq> []"
  shows "calls_of (releases ds m) = calls_of m @ [Disconnect (last ds)]
       \<and> refcount (releases ds m) = 0
       \<and> \<not> manager_is_connected (releases ds m)
       \<and> \<not> handle_connected (releases ds m)"
proof -
  from assms(3) obtain ds' d where ds: "ds = ds' @ [d]" by (cases ds rule: rev_cases) auto
  have lt: "int (length ds') < refcount m" using assms(1) by (simp add: ds)
  note H = releases_held [OF lt]
  have one: "refcount (releases ds' m) = 1" using H assms(1) by (simp add: ds)
  have conn: "manager_is_connected (releases ds' m)" using H assms(2) by simp
  have "releases ds m = release d (releases ds' m)" by (simp add: ds releases_def)
  with release_last [OF one conn, of d] H show ?thesis by (simp add: ds)
qed

text \<open>
  C3, as amended. On a manager whose handle is true (it holds at least one
  motor: the guards of \<open>acquire\<close> and \<open>release\<close> test the handle itself), from
  reference count zero with the bus not connected, a sequence of \<open>k \<ge> 1\<close>
  \<open>acquire\<close> calls makes the handle receive exactly one call, on the 0-to-1
  transition: \<open>connect\<close> with the handshake flag that the first \<open>acquire\<close>
  passes (the configured \<open>handshake_on_connect\<close> when it passes \<open>None\<close>). After
  each of the first \<open>j\<close> calls the trace is the old one followed by that single
  \<open>Connect\<close>. A following sequence of \<open>k\<close> \<open>release\<close> calls adds nothing to the
  trace and keeps the bus connected until the last call, which adds the single
  \<open>Disconnect\<close> and returns the count to zero; a further \<open>release\<close> changes
  nothing.
\<close>

theorem acquire_release_counting:
  assumes "refcount m = 0" and "\<not> manager_is_connected m" and "handle_true m"
    and "hs \<noteq> []" and "length ds = length hs"
  shows "(\<forall>j. 0 < j \<and> j \<le> length hs \<longrightarrow>
            calls_of (acquires (take j hs) m) = calls_of m @ [Connect (handshake_flag_of m (hd hs))]
          \<and> refcount (acquires (take j hs) m) = int j
          \<and> manager_is_connected (acquires (take j hs) m))
       \<and> (\<forall>j. j < length ds \<longrightarrow>
            calls_of (releases (take j ds) (acquires hs m)) = calls_of (acquires hs m)
          \<and> refcount (releases (take j ds) (acquires hs m)) = int (length hs) - int j
          \<and> manager_is_connected (releases (take j ds) (acquires hs m)))
       \<and> calls_of (releases ds (acquires hs m)) =
            calls_of m @ [Connect (handshake_flag_of m (hd hs)), Disconnect (last ds)]
       \<and> refcount (releases ds (acquires hs m)) = 0
       \<and> \<not> manager_is_connected (releases ds (acquires hs m))
       \<and> \<not> handle_connected (releases ds (acquires hs m))
       \<and> release d (releases ds (acquires hs m)) = releases ds (acquires hs m)"
proof -
  have A: "calls_of (acquires (take j hs) m) = calls_of m @ [Connect (handshake_flag_of m (hd hs))]
          \<and> refcount (acquires (take j hs) m) = int j
          \<and> manager_is_connected (acquires (take j hs) m)"
    if "0 < j" "j \<le> length hs" for j
  proof -
    from that assms(4) have ne: "take j hs \<noteq> []" by (cases hs) auto
    from that have "hd (take j hs) = hd hs" by (cases j) simp_all
    with acquires_first [OF assms(1,2,3) ne] that show ?thesis by simp
  qed
  note F = acquires_first [OF assms(1,2,3,4)]
  have B: "calls_of (releases (take j ds) (acquires hs m)) = calls_of (acquires hs m)
          \<and> refcount (releases (take j ds) (acquires hs m)) = int (length hs) - int j
          \<and> manager_is_connected (releases (take j ds) (acquires hs m))"
    if "j < length ds" for j
  proof -
    from that assms(5) F have "int (length (take j ds)) < refcount (acquires hs m)" by simp
    from releases_held [OF this] that F show ?thesis by simp
  qed
  from assms(4,5) have dne: "ds \<noteq> []" by auto
  from F assms(5) have rc: "refcount (acquires hs m) = int (length ds)" by simp
  from F have conn: "manager_is_connected (acquires hs m)" by simp
  note L = releases_all [OF rc conn dne]
  from L have "release d (releases ds (acquires hs m)) = releases ds (acquires hs m)"
    by (simp add: release_zero)
  with A B L F show ?thesis by simp
qed

theorem acquire_release_counting_witness:
  "refcount ex_m2 = 0 \<and> \<not> manager_is_connected ex_m2 \<and> handle_true ex_m2
   \<and> calls_of (acquires [None, Some False, Some True] ex_m2) = [Connect True]
   \<and> calls_of (releases [True, False] (acquires [None, Some False, Some True] ex_m2)) = [Connect True]
   \<and> calls_of (releases [True, False, False] (acquires [None, Some False, Some True] ex_m2)) =
       [Connect True, Disconnect False]
   \<and> refcount (releases [True, False, False] (acquires [None, Some False, Some True] ex_m2)) = 0"
proof -
  have h: "refcount ex_m2 = 0" "\<not> manager_is_connected ex_m2" "handle_true ex_m2"
    "[None, Some False, Some True] \<noteq> []"
    "length [True, False, False] = length [None, Some False, Some True]"
    "calls_of ex_m2 = []" "handshake_flag_of ex_m2 None = True"
    by (simp_all add: ex_defs manager_is_connected_def handle_true_def calls_of_def
        handshake_flag_of_def)
  note T = acquire_release_counting [OF h(1-5), of True]
  from T have "calls_of (acquires (take 3 [None, Some False, Some True]) ex_m2) =
                 calls_of ex_m2 @ [Connect (handshake_flag_of ex_m2 (hd [None, Some False, Some True]))]"
    by (elim conjE allE [of _ "3::nat"]) simp
  moreover from T have "calls_of (releases (take 2 [True, False, False])
                          (acquires [None, Some False, Some True] ex_m2)) =
                        calls_of (acquires [None, Some False, Some True] ex_m2)"
    by (elim conjE allE [of _ "2::nat"]) simp
  ultimately show ?thesis using T h by simp
qed

text \<open>
  C3 as stated fails in two ways. The \<open>connect\<close> is made with the flag of the
  first \<open>acquire\<close>: after \<open>acquire(False)\<close> the handle has received a \<open>connect\<close>
  without handshake. And on the manager as constructed, with no component
  registered, the handle is built without motors and is false, so two
  \<open>acquire\<close> calls from reference count zero raise the count to 2 and make no
  \<open>connect\<close> at all.
\<close>

theorem acquire_no_handshake_no_connect:
  "refcount ex_m2 = 0 \<and> \<not> manager_is_connected ex_m2
   \<and> calls_of (acquires [Some False, Some True] ex_m2) = [Connect False]
   \<and> refcount ex_m0 = 0 \<and> \<not> manager_is_connected ex_m0
   \<and> calls_of (acquires [Some True, Some True] ex_m0) = []
   \<and> refcount (acquires [Some True, Some True] ex_m0) = 2
   \<and> \<not> manager_is_connected (acquires [Some True, Some True] ex_m0)
   \<and> \<not> handle_connected (acquires [Some True, Some True] ex_m0)"
  by (simp add: acquires_def acquire_def ensure_bus_def FeetechMotorsBus_init_def bus_connect_def
      bus_receive_def calls_of_def manager_is_connected_def handle_connected_def ex_defs)

lemma disable_torque_Inl:
  "translate_motors v motors = Inl e \<Longrightarrow> disable_torque v m motors nr = (Inl e, m)"
  by (simp add: disable_torque_def)

lemma disable_torque_Inr:
  assumes "translate_motors v motors = Inr subs"
  shows "fst (disable_torque v m motors nr) = Inr ()"
    and "refcount (snd (disable_torque v m motors nr)) = refcount m"
    and "manager_is_connected (snd (disable_torque v m motors nr)) = manager_is_connected m"
    and "handle_true (snd (disable_torque v m motors nr)) = handle_true m"
    and "calls_of (snd (disable_torque v m motors nr)) =
           calls_of m @ (if bus m \<noteq> None \<and> handle_true m \<and> subs \<noteq> []
                         then [DisableTorque subs nr] else [])"
    and "config (snd (disable_torque v m motors nr)) = config m"
proof -
  have "fst (disable_torque v m motors nr) = Inr ()
      \<and> refcount (snd (disable_torque v m motors nr)) = refcount m
      \<and> manager_is_connected (snd (disable_torque v m motors nr)) = manager_is_connected m
      \<and> handle_true (snd (disable_torque v m motors nr)) = handle_true m
      \<and> calls_of (snd (disable_torque v m motors nr)) =
           calls_of m @ (if bus m \<noteq> None \<and> handle_true m \<and> subs \<noteq> []
                         then [DisableTorque subs nr] else [])
      \<and> config (snd (disable_torque v m motors nr)) = config m"
  proof (cases "bus m")
    case None
    with assms show ?thesis
      by (simp add: disable_torque_def manager_is_connected_def calls_of_def handle_true_def)
  next
    case (Some b)
    with assms show ?thesis
      by (cases "subs = []"; cases "bus_truth b")
         (simp_all add: disable_torque_def manager_is_connected_def calls_of_def bus_receive_def
            handle_true_def bus_truth_def)
  qed
  then show "fst (disable_torque v m motors nr) = Inr ()"
    and "refcount (snd (disable_torque v m motors nr)) = refcount m"
    and "manager_is_connected (snd (disable_torque v m motors nr)) = manager_is_connected m"
    and "handle_true (snd (disable_torque v m motors nr)) = handle_true m"
    and "calls_of (snd (disable_torque v m motors nr)) =
           calls_of m @ (if bus m \<noteq> None \<and> handle_true m \<and> subs \<noteq> []
                         then [DisableTorque subs nr] else [])"
    and "config (snd (disable_torque v m motors nr)) = config m"
    by simp_all
qed

lemma view_is_connected_eq [simp]: "view_is_connected v m = manager_is_connected m"
  by (simp add: view_is_connected_def manager_is_connected_def)

lemma connect_refcount: "refcount (fst (connect h v m)) = refcount m + 1"
  by (cases "bus m")
     (simp_all add: connect_def acquire_def ensure_bus_def Let_def split: option.splits)

lemmas ex_defs2 = ex_defs ex_bus_def ex_m3_def ex_left_on_def ex_m4_def

lemma ex_connect_left: "connect None ex_left ex_m2 = (ex_m3, ex_left_on)"
  by (simp add: connect_def acquire_def ensure_bus_def FeetechMotorsBus_init_def bus_connect_def
      bus_receive_def ex_defs2)

lemma ex_disconnect_left: "disconnect True ex_left_on ex_m3 = (Inr (), ex_m4, ex_left)"
  by (simp add: disconnect_def disable_torque_def translate_motors_def release_def
      bus_disconnect_def bus_receive_def manager_is_connected_def ex_defs2)

text \<open>
  C8. \<open>disconnect\<close> on a view that is not attached returns without touching the
  manager (reference count, handle, torque) or the view; a \<open>disconnect\<close> that
  returns leaves the view detached, so a second \<open>disconnect\<close> is such a no-op,
  and two calls in a row have the effect of one.
\<close>

theorem disconnect_detached_noop:
  "(\<not> connected v \<longrightarrow> disconnect d v m = (Inr (), m, v))
   \<and> (disconnect d v m = (Inr (), m', v') \<longrightarrow> disconnect d' v' m' = (Inr (), m', v'))
   \<and> disconnect_twice d v m = disconnect d v m"
proof -
  have 1: "disconnect d v m = (Inr (), m, v)" if "\<not> connected v"
    using that by (simp add: disconnect_def)
  have 2: "\<not> connected v'" if "disconnect d v m = (Inr (), m', v')" for m' v'
    using that by (auto simp: disconnect_def split: if_splits prod.splits sum.splits)
  have 3: "disconnect d' v' m' = (Inr (), m', v')" if "disconnect d v m = (Inr (), m', v')"
    for m' v' d'
    using 2 [OF that] by (simp add: disconnect_def)
  have 4: "disconnect_twice d v m = disconnect d v m"
  proof (cases "disconnect d v m")
    case (fields r m1 v1)
    show ?thesis
    proof (cases r)
      case (Inl e)
      with fields show ?thesis by (simp add: disconnect_twice_def)
    next
      case (Inr u)
      with fields have "disconnect d v m = (Inr (), m1, v1)" by simp
      from 3 [OF this, of d] this Inr fields show ?thesis
        by (simp add: disconnect_twice_def)
    qed
  qed
  from 1 2 3 4 show ?thesis by blast
qed

theorem disconnect_detached_noop_witness:
  "\<not> connected ex_left
   \<and> disconnect True ex_left ex_m3 = (Inr (), ex_m3, ex_left)
   \<and> disconnect True ex_left_on ex_m3 = (Inr (), ex_m4, ex_left)
   \<and> disconnect False ex_left ex_m4 = (Inr (), ex_m4, ex_left)
   \<and> disconnect_twice True ex_left_on ex_m3 = (Inr (), ex_m4, ex_left)"
  using disconnect_detached_noop [of ex_left True ex_m3 ex_m3 ex_left True]
    disconnect_detached_noop [of ex_left_on True ex_m3 ex_m4 ex_left False]
    ex_disconnect_left
  by (simp add: ex_left_def)

text \<open>
  C10. Every \<open>connect\<close> of a view increments the manager's reference count,
  while the view has one attached flag: after \<open>connect\<close>, \<open>connect\<close>,
  \<open>disconnect\<close> on one view, from reference count zero and on a manager whose
  handle is true (it holds a motor), the count is 1, the bus is still connected
  (the handle has received no \<open>Disconnect\<close>), the view is detached, and a
  second \<open>disconnect\<close> changes nothing.
\<close>

theorem connect_not_idempotent:
  assumes "refcount m = 0" and "\<not> manager_is_connected m" and "handle_true m"
    and "translate_motors v AllMotors = Inr subs"
  shows "refcount (fst (connect h1 v m)) = refcount m + 1
       \<and> refcount (fst (connect h2 (snd (connect h1 v m)) (fst (connect h1 v m)))) = refcount m + 2
       \<and> (\<exists>m3 v3. connect_connect_disconnect h1 h2 d1 v m = (Inr (), m3, v3)
            \<and> refcount m3 = 1 \<and> manager_is_connected m3 \<and> \<not> connected v3
            \<and> calls_of m3 = calls_of m @ [Connect (handshake_flag_of m h1)] @
                 (if d1 \<and> subs \<noteq> [] then [DisableTorque subs 0] else [])
            \<and> disconnect d2 v3 m3 = (Inr (), m3, v3))"
proof -
  define m1 where "m1 = acquire h1 m"
  define m2 where "m2 = acquire h2 m1"
  define v2 where "v2 = v\<lparr>connected := True\<rparr>"
  note A1 = acquire_first [OF assms(1,2,3), of h1, folded m1_def]
  from A1 have ne: "refcount m1 \<noteq> 0" by simp
  note A2 = acquire_again [OF ne, of h2, folded m2_def]
  have c2: "connect h2 (snd (connect h1 v m)) (fst (connect h1 v m)) = (m2, v2)"
    by (simp add: connect_def m1_def m2_def v2_def)
  have tr: "translate_motors v2 AllMotors = Inr subs"
    using assms(4) by (simp add: translate_motors_def v2_def)
  have bus2: "bus m2 \<noteq> None"
    using A1(3) A2(3) by (cases "bus m2") (simp_all add: manager_is_connected_def)
  have true2: "handle_true m2" using A1(4) A2(4) by simp
  define m2' where "m2' = (if d1 then snd (disable_torque v2 m2 AllMotors 0) else m2)"
  note DT = disable_torque_Inr [OF tr, of m2 0]
  have m2': "refcount m2' = 2" "manager_is_connected m2'"
    "calls_of m2' = calls_of m @ [Connect (handshake_flag_of m h1)] @
                 (if d1 \<and> subs \<noteq> [] then [DisableTorque subs 0] else [])"
    using DT A1 A2 bus2 true2 by (simp_all add: m2'_def)
  have d: "disconnect d1 v2 m2 = (Inr (), release d1 m2', v2\<lparr>connected := False\<rparr>)"
  proof (cases d1)
    case True
    obtain r mm where dt: "disable_torque v2 m2 AllMotors 0 = (r, mm)"
      by (cases "disable_torque v2 m2 AllMotors 0")
    with DT(1) have "r = Inr ()" by simp
    with dt True A1 A2 show ?thesis
      by (simp add: disconnect_def v2_def m2'_def)
  next
    case False
    then show ?thesis by (simp add: disconnect_def v2_def m2'_def)
  qed
  have ne2: "refcount m2' \<noteq> 0" "refcount m2' \<noteq> 1" using m2'(1) by simp_all
  note RH = release_held [OF ne2, of d1]
  have seq: "connect_connect_disconnect h1 h2 d1 v m =
               (Inr (), release d1 m2', v2\<lparr>connected := False\<rparr>)"
    using d by (simp add: connect_connect_disconnect_def connect_def m1_def m2_def v2_def)
  have last: "disconnect d2 (v2\<lparr>connected := False\<rparr>) (release d1 m2') =
                (Inr (), release d1 m2', v2\<lparr>connected := False\<rparr>)"
    by (simp add: disconnect_def)
  have "refcount (fst (connect h1 v m)) = refcount m + 1" by (rule connect_refcount)
  moreover have "refcount (fst (connect h2 (snd (connect h1 v m)) (fst (connect h1 v m)))) =
                   refcount m + 2"
    using c2 A1 A2 assms(1) by simp
  ultimately show ?thesis
    using seq last RH m2' by simp
qed

theorem connect_not_idempotent_witness:
  "refcount ex_m2 = 0 \<and> \<not> manager_is_connected ex_m2 \<and> handle_true ex_m2
   \<and> translate_motors ex_left AllMotors = Inr [''left_shoulder'']
   \<and> (\<exists>m3 v3. connect_connect_disconnect None (Some True) True ex_left ex_m2 = (Inr (), m3, v3)
         \<and> refcount m3 = 1 \<and> manager_is_connected m3 \<and> \<not> connected v3
         \<and> calls_of m3 = [Connect True, DisableTorque [''left_shoulder''] 0]
         \<and> disconnect True v3 m3 = (Inr (), m3, v3))"
proof -
  have h: "refcount ex_m2 = 0" "\<not> manager_is_connected ex_m2" "handle_true ex_m2"
    "translate_motors ex_left AllMotors = Inr [''left_shoulder'']"
    "calls_of ex_m2 = []" "handshake_flag_of ex_m2 None = True"
    by (simp_all add: ex_defs manager_is_connected_def handle_true_def calls_of_def
        handshake_flag_of_def translate_motors_def)
  from connect_not_idempotent [OF h(1-4), of None "Some True" True True] h
  show ?thesis by simp
qed

text \<open>
  C9. For \<open>write\<close> and \<open>setup_motor\<close> an integer motor argument is translated
  to itself: when the handle exists the call is forwarded with the same
  integer, and the outcome does not depend on the view, so nothing checks that
  the id belongs to the view's motors.
\<close>

theorem integer_motor_forwarded:
  "translate_motor v (Some (MotorNumber i)) = Inr (Some (MotorNumber i))
   \<and> (bus m = Some b \<longrightarrow>
        view_write v m data_name (MotorNumber i) x nrm num_retry =
          (Inr (), m\<lparr>bus := Some (bus_receive
                     (Write data_name (Some (MotorNumber i)) x nrm num_retry) b)\<rparr>)
      \<and> setup_motor v m (MotorNumber i) initial_baudrate initial_id =
          (Inr (), m\<lparr>bus := Some (bus_receive
                     (SetupMotor (Some (MotorNumber i)) initial_baudrate initial_id) b)\<rparr>))
   \<and> view_write v m data_name (MotorNumber i) x nrm num_retry =
       view_write v' m data_name (MotorNumber i) x nrm num_retry
   \<and> setup_motor v m (MotorNumber i) initial_baudrate initial_id =
       setup_motor v' m (MotorNumber i) initial_baudrate initial_id"
  by (cases "bus m") (simp_all add: translate_motor_def view_write_def setup_motor_def)

theorem integer_motor_forwarded_witness:
  "bus ex_m3 = Some ex_bus
   \<and> map_of (motor_defs ex_m3) ''right_shoulder'' = Some (ex_motor 7)
   \<and> dict_keys (local_to_bus ex_left) = [''shoulder'']
   \<and> view_write ex_left ex_m3 ''Goal_Position'' (MotorNumber 7) 2048 True 0 =
       (Inr (), ex_m3\<lparr>bus := Some (ex_bus\<lparr>bus_calls :=
           [Connect True, Write ''Goal_Position'' (Some (MotorNumber 7)) 2048 True 0]\<rparr>)\<rparr>)
   \<and> setup_motor ex_left ex_m3 (MotorNumber 7) None (Some 1) =
       (Inr (), ex_m3\<lparr>bus := Some (ex_bus\<lparr>bus_calls :=
           [Connect True, SetupMotor (Some (MotorNumber 7)) None (Some 1)]\<rparr>)\<rparr>)"
  using integer_motor_forwarded [of ex_left 7 ex_m3 ex_bus "''Goal_Position''" 2048 True 0
      None "Some 1" ex_left]
  by (simp add: ex_defs2 bus_receive_def)

section \<open>Uninitialized bus and torque operations\<close>

lemma lookup_all_Inl: "lookup_all l2b ns = Inl e \<Longrightarrow> \<exists>k. e = KeyError k"
  by (induction ns arbitrary: e) (auto split: option.splits sum.splits)

lemma translate_items_Inl: "translate_items l2b xs acc = Inl e \<Longrightarrow> \<exists>k. e = KeyError k"
proof (induction xs arbitrary: acc)
  case Nil
  then show ?case by simp
next
  case (Cons x xs)
  obtain n y where x: "x = (n, y)" by (cases x)
  from Cons show ?case unfolding x by (cases "map_of l2b n") auto
qed

lemma translate_motors_not_uninitialized: "translate_motors v motors \<noteq> Inl uninitialized"
proof
  assume a: "translate_motors v motors = Inl uninitialized"
  show False
  proof (cases motors)
    case AllMotors
    with a lookup_all_Inl show ?thesis
      by (fastforce simp: translate_motors_def uninitialized_def)
  next
    case (OneMotor s)
    with a show ?thesis
      by (cases "map_of (local_to_bus v) s") (simp_all add: translate_motors_def uninitialized_def)
  next
    case (MotorList ns)
    with a lookup_all_Inl show ?thesis
      by (fastforce simp: translate_motors_def uninitialized_def)
  next
    case (MotorInt i)
    with a show ?thesis by (simp add: translate_motors_def uninitialized_def)
  qed
qed

lemma translate_motor_not_uninitialized: "translate_motor v motor \<noteq> Inl uninitialized"
  by (auto simp: translate_motor_def uninitialized_def split: option.splits target.splits)

lemma translate_dict_not_uninitialized: "translate_dict v vals \<noteq> Inl uninitialized"
  using translate_items_Inl [of "local_to_bus v" vals "[]" uninitialized]
  by (auto simp: translate_dict_def uninitialized_def)

lemma view_write_uninitialized:
  "(fst (view_write v m data_name motor x nrm num_retry) = Inl uninitialized) = (bus m = None)"
  using translate_motor_not_uninitialized [of v "Some motor"]
  by (cases "bus m"; cases "translate_motor v (Some motor)") (simp_all add: view_write_def)

lemma setup_motor_uninitialized:
  "(fst (setup_motor v m motor initial_baudrate initial_id) = Inl uninitialized) = (bus m = None)"
  using translate_motor_not_uninitialized [of v "Some motor"]
  by (cases "bus m"; cases "translate_motor v (Some motor)") (simp_all add: setup_motor_def)

lemma sync_write_uninitialized:
  "(fst (sync_write v m data_name vals nrm num_retry) = Inl uninitialized) = (bus m = None)"
  using translate_dict_not_uninitialized [of v vals]
  by (cases "bus m"; cases "translate_dict v vals") (simp_all add: sync_write_def)

lemma write_calibration_uninitialized:
  "(fst (write_calibration v m cal) = Inl uninitialized) = (bus m = None)"
  using translate_dict_not_uninitialized [of v cal]
  by (cases "bus m"; cases "translate_dict v cal") (simp_all add: write_calibration_def)

lemma sync_read_uninitialized:
  "(fst (sync_read rd v m data_name motors nrm num_retry) = Inl uninitialized) = (bus m = None)"
  using translate_motors_not_uninitialized [of v motors]
  by (cases "bus m"; cases "translate_motors v motors") (simp_all add: sync_read_def Let_def)

lemma set_half_turn_homings_uninitialized:
  "(fst (set_half_turn_homings hh v m motors) = Inl uninitialized) = (bus m = None)"
  using translate_motors_not_uninitialized [of v motors]
  by (cases "bus m"; cases "translate_motors v motors")
     (simp_all add: set_half_turn_homings_def Let_def)

lemma record_ranges_of_motion_uninitialized:
  "(fst (record_ranges_of_motion rr v m motors) = Inl uninitialized) = (bus m = None)"
  using translate_motors_not_uninitialized [of v motors]
  by (cases "bus m"; cases "translate_motors v motors")
     (simp_all add: record_ranges_of_motion_def split: prod.splits)

lemma torque_no_handle:
  assumes "bus m = None"
  shows "snd (enable_torque v m motors num_retry) = m
       \<and> fst (enable_torque v m motors num_retry) \<noteq> Inl uninitialized
       \<and> snd (disable_torque v m motors num_retry) = m
       \<and> fst (disable_torque v m motors num_retry) \<noteq> Inl uninitialized
       \<and> (translate_motors v motors = Inr subs \<longrightarrow>
            enable_torque v m motors num_retry = (Inr (), m)
          \<and> disable_torque v m motors num_retry = (Inr (), m))"
  using assms translate_motors_not_uninitialized [of v motors]
  by (cases "translate_motors v motors") (simp_all add: enable_torque_def disable_torque_def)

text \<open>
  C5, as amended. Each of \<open>write\<close>, \<open>sync_write\<close>, \<open>sync_read\<close>,
  \<open>set_half_turn_homings\<close>, \<open>record_ranges_of_motion\<close>, \<open>write_calibration\<close> and
  \<open>setup_motor\<close> raises the uninitialized-bus error (\<open>RuntimeError\<close> with the
  message "Shared bus not initialized.") if and only if the manager has no
  handle. With no handle, \<open>enable_torque\<close> and \<open>disable_torque\<close> never raise
  that error and change nothing, and they return normally whenever their motor
  argument can be translated (no argument, or local names of the view's
  local-to-global map): the translation comes before the test of the handle.
\<close>

theorem uninitialized_iff_no_handle:
  "(fst (view_write v m data_name motor x nrm num_retry) = Inl uninitialized) = (bus m = None)
   \<and> (fst (sync_write v m data_name vals nrm num_retry) = Inl uninitialized) = (bus m = None)
   \<and> (fst (sync_read rd v m data_name motors nrm num_retry) = Inl uninitialized) = (bus m = None)
   \<and> (fst (set_half_turn_homings hh v m motors) = Inl uninitialized) = (bus m = None)
   \<and> (fst (record_ranges_of_motion rr v m motors) = Inl uninitialized) = (bus m = None)
   \<and> (fst (write_calibration v m cal) = Inl uninitialized) = (bus m = None)
   \<and> (fst (setup_motor v m motor initial_baudrate initial_id) = Inl uninitialized) = (bus m = None)
   \<and> (bus m = None \<longrightarrow>
         snd (enable_torque v m motors num_retry) = m
       \<and> fst (enable_torque v m motors num_retry) \<noteq> Inl uninitialized
       \<and> snd (disable_torque v m motors num_retry) = m
       \<and> fst (disable_torque v m motors num_retry) \<noteq> Inl uninitialized)
   \<and> (bus m = None \<longrightarrow> translate_motors v motors = Inr subs \<longrightarrow>
         enable_torque v m motors num_retry = (Inr (), m)
       \<and> disable_torque v m motors num_retry = (Inr (), m))"
  using view_write_uninitialized [of v m data_name motor x nrm num_retry]
    sync_write_uninitialized [of v m data_name vals nrm num_retry]
    sync_read_uninitialized [of rd v m data_name motors nrm num_retry]
    set_half_turn_homings_uninitialized [of hh v m motors]
    record_ranges_of_motion_uninitialized [of rr v m motors]
    write_calibration_uninitialized [of v m cal]
    setup_motor_uninitialized [of v m motor initial_baudrate initial_id]
    torque_no_handle [of m v motors num_retry subs]
  by blast

theorem uninitialized_iff_no_handle_witness:
  "bus ex_m2 = None
   \<and> translate_motors ex_left AllMotors = Inr [''left_shoulder'']
   \<and> enable_torque ex_left ex_m2 AllMotors 0 = (Inr (), ex_m2)
   \<and> disable_torque ex_left ex_m2 AllMotors 0 = (Inr (), ex_m2)
   \<and> fst (sync_write ex_left ex_m2 ''Goal_Position'' [(''shoulder'', 2048)] True 0) =
       Inl uninitialized
   \<and> bus ex_m3 \<noteq> None
   \<and> fst (sync_write ex_left ex_m3 ''Goal_Position'' [(''shoulder'', 2048)] True 0) \<noteq>
       Inl uninitialized"
proof -
  have h: "bus ex_m2 = None" "translate_motors ex_left AllMotors = Inr [''left_shoulder'']"
    "bus ex_m3 \<noteq> None"
    by (simp_all add: ex_defs2 translate_motors_def)
  note T = uninitialized_iff_no_handle [where v = ex_left and motors = AllMotors
      and subs = "[''left_shoulder'']" and vals = "[(''shoulder'', 2048)]"
      and data_name = "''Goal_Position''" and nrm = True and num_retry = 0
      and motor = "MotorName ''shoulder''" and x = 0 and rd = echo_sync_read
      and hh = "\<lambda>b ms. []" and rr = "\<lambda>b ms. ([], [])" and cal = "[]"
      and initial_baudrate = None and initial_id = None]
  from T [of ex_m2] T [of ex_m3] h
  show ?thesis by simp
qed

text \<open>
  C5 as stated fails: with no handle, a torque call that names a motor the view
  does not know raises \<open>KeyError\<close> instead of returning silently.
\<close>

theorem torque_unknown_motor_raises:
  "bus ex_m2 = None
   \<and> disable_torque ex_left ex_m2 (MotorList [''ghost'']) 0 = (Inl (KeyError ''ghost''), ex_m2)
   \<and> enable_torque ex_left ex_m2 (MotorList [''ghost'']) 0 = (Inl (KeyError ''ghost''), ex_m2)"
  by (simp add: ex_defs2 disable_torque_def enable_torque_def translate_motors_def)

section \<open>Calibration state of a view\<close>

lemma all_calibrated_eq:
  assumes "set ns \<subseteq> set (dict_keys l2b)"
  shows "all_calibrated l2b cal ns =
           Inr (\<forall>n \<in> set ns. \<exists>g. map_of l2b n = Some g \<and> dict_contains g cal)"
  using assms
proof (induction ns)
  case Nil
  then show ?case by simp
next
  case (Cons n ns)
  from Cons.prems have "n \<in> fst ` set l2b" by (simp add: dict_keys_def)
  then obtain g where g: "map_of l2b n = Some g"
    by (metis domIff dom_map_of_conv_image_fst not_Some_eq)
  from Cons.prems have "set ns \<subseteq> set (dict_keys l2b)" by simp
  from Cons.IH [OF this] g show ?case by simp
qed

lemma handle_calibration_acquire:
  "bus m = None \<Longrightarrow> handle_calibration (acquire h m) = calibration m"
  by (simp add: handle_calibration_def acquire_def ensure_bus_def FeetechMotorsBus_init_def
      bus_connect_def bus_receive_def Let_def)

text \<open>
  C7, as amended. \<open>is_calibrated\<close> is false whenever the shared bus is not
  connected (also when there is no handle); connected means that the handle
  exists and reports \<open>is_connected\<close>, which is the view's \<open>is_connected\<close>
  for every handle that is true. For a view whose local motors all
  have an entry in its local-to-global map, it is true exactly when the bus is
  connected and every local motor's bus-global name is a key of the calibration
  table held by the Bus Handle. The handle is given the Global Calibration Table
  when it is constructed; whenever the two tables have the same keys,
  \<open>is_calibrated\<close> is true exactly when the bus is connected and every local
  motor's bus-global name is a key of the Global Calibration Table.
\<close>

theorem is_calibrated_handle_table:
  "(\<not> handle_connected m \<longrightarrow> is_calibrated v m = Inr False)
   \<and> (set (dict_keys (local_motors v)) \<subseteq> set (dict_keys (local_to_bus v)) \<longrightarrow>
        is_calibrated v m =
          Inr (handle_connected m
               \<and> (\<forall>n \<in> set (dict_keys (local_motors v)).
                    \<exists>g. map_of (local_to_bus v) n = Some g
                       \<and> dict_contains g (handle_calibration m))))
   \<and> (set (dict_keys (local_motors v)) \<subseteq> set (dict_keys (local_to_bus v)) \<longrightarrow>
       set (dict_keys (handle_calibration m)) = set (dict_keys (calibration m)) \<longrightarrow>
        is_calibrated v m =
          Inr (handle_connected m
               \<and> (\<forall>n \<in> set (dict_keys (local_motors v)).
                    \<exists>g. map_of (local_to_bus v) n = Some g
                       \<and> dict_contains g (calibration m))))
   \<and> (bus m = None \<longrightarrow> handle_calibration (acquire h m) = calibration m)
   \<and> (handle_true m \<longrightarrow> view_is_connected v m = handle_connected m)"
proof -
  have 1: "is_calibrated v m = Inr False" if "\<not> handle_connected m"
    using that by (cases "bus m") (simp_all add: is_calibrated_def handle_connected_def)
  have 2: "is_calibrated v m =
          Inr (handle_connected m
               \<and> (\<forall>n \<in> set (dict_keys (local_motors v)).
                    \<exists>g. map_of (local_to_bus v) n = Some g
                       \<and> dict_contains g (handle_calibration m)))"
    if wf: "set (dict_keys (local_motors v)) \<subseteq> set (dict_keys (local_to_bus v))"
  proof (cases "handle_connected m")
    case False
    with 1 show ?thesis by simp
  next
    case True
    then obtain b where b: "bus m = Some b" "bus_is_connected b"
      by (cases "bus m") (simp_all add: handle_connected_def)
    with True all_calibrated_eq [OF wf, of "bus_calibration b"] show ?thesis
      by (simp add: is_calibrated_def handle_calibration_def)
  qed
  have 3: "is_calibrated v m =
          Inr (handle_connected m
               \<and> (\<forall>n \<in> set (dict_keys (local_motors v)).
                    \<exists>g. map_of (local_to_bus v) n = Some g
                       \<and> dict_contains g (calibration m)))"
    if wf: "set (dict_keys (local_motors v)) \<subseteq> set (dict_keys (local_to_bus v))"
      and same: "set (dict_keys (handle_calibration m)) = set (dict_keys (calibration m))"
    using 2 [OF wf] same by (simp add: dict_contains_def)
  have 4: "view_is_connected v m = handle_connected m" if "handle_true m"
    using that
    by (cases "bus m") (simp_all add: manager_is_connected_def handle_connected_def handle_true_def)
  from 1 2 3 4 handle_calibration_acquire [of m h] show ?thesis by blast
qed

theorem is_calibrated_handle_table_witness:
  "\<not> handle_connected ex_m2
   \<and> is_calibrated ex_right ex_m2 = Inr False
   \<and> set (dict_keys (local_motors ex_right)) \<subseteq> set (dict_keys (local_to_bus ex_right))
   \<and> set (dict_keys (handle_calibration ex_m3)) = set (dict_keys (calibration ex_m3))
   \<and> handle_connected ex_m3
   \<and> is_calibrated ex_right ex_m3 = Inr True
   \<and> bus ex_m2 = None
   \<and> handle_calibration (acquire None ex_m2) = calibration ex_m2
   \<and> handle_true ex_m3
   \<and> view_is_connected ex_right ex_m3"
  using is_calibrated_handle_table [of ex_m2 ex_right None]
    is_calibrated_handle_table [of ex_m3 ex_right None]
  by (simp add: ex_defs2 manager_is_connected_def handle_connected_def handle_true_def
      handle_calibration_def)

text \<open>
  C7 as stated fails: component \<open>right\<close> is registered, with its calibration,
  after \<open>left.connect()\<close> has constructed the handle from an empty Global
  Calibration Table. The bus is connected and \<open>right_shoulder\<close> is a key of the
  Global Calibration Table, yet \<open>is_calibrated\<close> is false, since the handle's
  own table is still empty.
\<close>

theorem is_calibrated_late_registration:
  "fst (register_component (fst (connect None ex_left ex_m1)) ''right''
          [(''shoulder'', ex_motor 1)] ''right_'' 6 (Some [(''shoulder'', 100)])) = Inr ex_right
   \<and> view_is_connected ex_right ex_late
   \<and> dict_keys (local_motors ex_right) = [''shoulder'']
   \<and> map_of (local_to_bus ex_right) ''shoulder'' = Some ''right_shoulder''
   \<and> dict_contains ''right_shoulder'' (calibration ex_late)
   \<and> is_calibrated ex_right ex_late = Inr False"
  by (simp add: ex_late_def register_component_def connect_def acquire_def ensure_bus_def
      FeetechMotorsBus_init_def bus_connect_def bus_receive_def is_calibrated_def
      manager_is_connected_def ex_defs2)

section \<open>Dictionaries built item by item\<close>

lemma fst_set_dict_set: "fst ` set (dict_set k v d) = insert k (fst ` set d)"
  by (induction d) auto

lemma set_dict_set_subset: "set (dict_set k v d) \<subseteq> insert (k, v) (set d)"
  by (induction d) auto

lemma map_of_dict_set: "map_of (dict_set k v d) = (map_of d)(k \<mapsto> v)"
  by (induction d) auto

lemma distinct_dict_set: "distinct (map fst d) \<Longrightarrow> distinct (map fst (dict_set k v d))"
  by (induction d) (auto simp: fst_set_dict_set)

lemma foldl_dict_set_append:
  assumes "distinct (map f xs)" and "f ` set xs \<inter> fst ` set acc = {}"
  shows "foldl (\<lambda>a e. dict_set (f e) (h e) a) acc xs = acc @ map (\<lambda>e. (f e, h e)) xs"
  using assms
proof (induction xs arbitrary: acc)
  case Nil
  then show ?case by simp
next
  case (Cons x xs)
  from Cons.prems have fresh: "f x \<notin> fst ` set acc" by auto
  then have step: "dict_set (f x) (h x) acc = acc @ [(f x, h x)]" by (rule dict_set_absent)
  from Cons.prems have d: "distinct (map f xs)" by simp
  from Cons.prems have "f ` set xs \<inter> fst ` set (acc @ [(f x, h x)]) = {}" by auto
  from Cons.IH [OF d this] step show ?case by simp
qed

lemma distinct_snd_unique:
  assumes "distinct (map snd l)" and "(a, g) \<in> set l" and "(b, g) \<in> set l"
  shows "a = b"
  using assms
proof (induction l)
  case Nil
  then show ?case by simp
next
  case (Cons p l)
  then show ?case by (cases p) force
qed

section \<open>Results mapped back to local names\<close>

lemma reverse_of_inj:
  assumes "distinct (map snd l2b)"
  shows "reverse_of l2b = map (\<lambda>e. (snd e, fst e)) l2b"
  unfolding reverse_of_def using foldl_dict_set_append [of snd l2b "[]" fst] assms by simp

lemma map_of_reverse_of_inj:
  assumes "distinct (map fst l2b)" and "distinct (map snd l2b)"
  shows "(map_of (reverse_of l2b) g = Some n) = (map_of l2b n = Some g)"
proof -
  have d: "distinct (map fst (map (\<lambda>e. (snd e, fst e)) l2b))"
    using assms(2) by (simp add: comp_def)
  have "(map_of (reverse_of l2b) g = Some n) = ((g, n) \<in> set (map (\<lambda>e. (snd e, fst e)) l2b))"
    unfolding reverse_of_inj [OF assms(2)] using d by simp
  also have "\<dots> = ((n, g) \<in> set l2b)" by force
  also have "\<dots> = (map_of l2b n = Some g)" using assms(1) by simp
  finally show ?thesis .
qed

lemma reverse_fold_sound:
  "map_of (foldl (\<lambda>acc e. dict_set (snd e) (fst e) acc) acc l) g = Some n \<Longrightarrow>
   (n, g) \<in> set l \<or> map_of acc g = Some n"
proof (induction l arbitrary: acc)
  case Nil
  then show ?case by simp
next
  case (Cons p l)
  from Cons.IH [OF Cons.prems [simplified]] show ?case
    by (cases p) (auto simp: map_of_dict_set split: if_splits)
qed

lemma reverse_of_sound: "map_of (reverse_of l2b) g = Some n \<Longrightarrow> (n, g) \<in> set l2b"
  using reverse_fold_sound [of "[]" l2b g n] by (simp add: reverse_of_def)

lemma reverse_fold_keys:
  "fst ` set (foldl (\<lambda>acc e. dict_set (snd e) (fst e) acc) acc l) = fst ` set acc \<union> snd ` set l"
  by (induction l arbitrary: acc) (auto simp: fst_set_dict_set)

lemma reverse_of_keys: "fst ` set (reverse_of l2b) = snd ` set l2b"
  using reverse_fold_keys [of "[]" l2b] by (simp add: reverse_of_def)

lemma reverse_of_None: "(map_of (reverse_of l2b) g = None) = (g \<notin> snd ` set l2b)"
  by (simp add: map_of_eq_None_iff reverse_of_keys)

lemma to_local_member:
  assumes "(n, x) \<in> set (foldl (\<lambda>acc e. case R (fst e) of None \<Rightarrow> acc
                                       | Some l \<Rightarrow> dict_set l (snd e) acc) acc r)"
  shows "(n, x) \<in> set acc \<or> (\<exists>g. R g = Some n \<and> (g, x) \<in> set r)"
  using assms
proof (induction r arbitrary: acc)
  case Nil
  then show ?case by simp
next
  case (Cons p r)
  obtain g y where p: "p = (g, y)" by (cases p)
  show ?case
  proof (cases "R g")
    case None
    with Cons.prems have "(n, x) \<in> set (foldl (\<lambda>acc e. case R (fst e) of None \<Rightarrow> acc
                                       | Some l \<Rightarrow> dict_set l (snd e) acc) acc r)"
      by (simp add: p)
    from Cons.IH [OF this] show ?thesis by auto
  next
    case (Some l)
    with Cons.prems have "(n, x) \<in> set (foldl (\<lambda>acc e. case R (fst e) of None \<Rightarrow> acc
                               | Some l \<Rightarrow> dict_set l (snd e) acc) (dict_set l y acc) r)"
      by (simp add: p)
    from Cons.IH [OF this] set_dict_set_subset [of l y acc] Some show ?thesis
      by (auto simp: p)
  qed
qed

lemma to_local_distinct:
  assumes "distinct (map fst acc)"
  shows "distinct (map fst (foldl (\<lambda>acc e. case R (fst e) of None \<Rightarrow> acc
                                       | Some l \<Rightarrow> dict_set l (snd e) acc) acc r))"
  using assms
proof (induction r arbitrary: acc)
  case Nil
  then show ?case by simp
next
  case (Cons p r)
  show ?case
  proof (cases "R (fst p)")
    case None
    with Cons.IH [OF Cons.prems] show ?thesis by simp
  next
    case (Some l)
    with Cons.IH [OF distinct_dict_set [OF Cons.prems, of l "snd p"]] show ?thesis by simp
  qed
qed

lemma to_local_filter:
  "foldl (\<lambda>acc e. case R (fst e) of None \<Rightarrow> acc | Some l \<Rightarrow> dict_set l (snd e) acc) acc r =
   foldl (\<lambda>acc e. case R (fst e) of None \<Rightarrow> acc | Some l \<Rightarrow> dict_set l (snd e) acc) acc
     (filter (\<lambda>e. R (fst e) \<noteq> None) r)"
proof (induction r arbitrary: acc)
  case Nil
  show ?case by simp
next
  case (Cons p r)
  show ?case by (cases "R (fst p)") (simp_all add: Cons.IH)
qed

lemma to_local_lookup:
  assumes inv: "\<And>g k. (R g = Some k) = (G k = Some g)"
    and "distinct (map fst r)"
  shows "map_of (foldl (\<lambda>acc e. case R (fst e) of None \<Rightarrow> acc
                                | Some l \<Rightarrow> dict_set l (snd e) acc) acc r) n =
         (case G n of
            None \<Rightarrow> map_of acc n
          | Some g \<Rightarrow> (case map_of r g of None \<Rightarrow> map_of acc n | Some x \<Rightarrow> Some x))"
  using assms(2)
proof (induction r arbitrary: acc)
  case Nil
  show ?case by (simp split: option.splits)
next
  case (Cons p r)
  obtain g0 x0 where p: "p = (g0, x0)" by (cases p)
  from Cons.prems have d: "distinct (map fst r)" and fresh: "map_of r g0 = None"
    by (simp_all add: p map_of_eq_None_iff)
  let ?step = "\<lambda>acc e. case R (fst e) of None \<Rightarrow> acc | Some l \<Rightarrow> dict_set l (snd e) acc"
  define acc' where "acc' = ?step acc p"
  have fold: "foldl ?step acc (p # r) = foldl ?step acc' r" by (simp add: acc'_def)
  note IH = Cons.IH [OF d, of acc']
  have acc'_other: "map_of acc' n = map_of acc n" if "G n \<noteq> Some g0"
  proof (cases "R g0")
    case None
    then show ?thesis by (simp add: acc'_def p)
  next
    case (Some l)
    with inv have "G l = Some g0" by simp
    with that have "l \<noteq> n" by auto
    with Some show ?thesis by (simp add: acc'_def p map_of_dict_set)
  qed
  have acc'_same: "map_of acc' n = Some x0" if "G n = Some g0"
  proof -
    from that inv have "R g0 = Some n" by simp
    then show ?thesis by (simp add: acc'_def p map_of_dict_set)
  qed
  show ?case
  proof (cases "G n")
    case None
    with IH acc'_other show ?thesis unfolding fold by simp
  next
    case (Some g)
    show ?thesis
    proof (cases "g = g0")
      case True
      with Some IH fresh acc'_same show ?thesis unfolding fold by (simp add: p)
    next
      case False
      with Some have "G n \<noteq> Some g0" by simp
      from acc'_other [OF this] IH Some False show ?thesis
        unfolding fold by (simp add: p split: option.splits)
    qed
  qed
qed

lemma map_dict_to_local_member:
  assumes "(n, x) \<in> set (map_dict_to_local v r)"
  shows "\<exists>g. (n, g) \<in> set (local_to_bus v) \<and> (g, x) \<in> set r"
proof -
  from to_local_member [of n x "map_of (reverse_of (local_to_bus v))" "[]" r] assms
  obtain g where "map_of (reverse_of (local_to_bus v)) g = Some n" and "(g, x) \<in> set r"
    by (auto simp: map_dict_to_local_def Let_def)
  with reverse_of_sound show ?thesis by blast
qed

lemma map_dict_to_local_keys:
  "set (dict_keys (map_dict_to_local v r)) \<subseteq> set (dict_keys (local_to_bus v))"
proof
  fix n assume "n \<in> set (dict_keys (map_dict_to_local v r))"
  then obtain x where "(n, x) \<in> set (map_dict_to_local v r)"
    by (auto simp: dict_keys_def)
  from map_dict_to_local_member [OF this] show "n \<in> set (dict_keys (local_to_bus v))"
    by (force simp: dict_keys_def)
qed

lemma map_dict_to_local_distinct: "distinct (dict_keys (map_dict_to_local v r))"
  using to_local_distinct [of "[]" "map_of (reverse_of (local_to_bus v))" r]
  by (simp add: map_dict_to_local_def Let_def dict_keys_def)

lemma map_dict_to_local_filter:
  "map_dict_to_local v r =
   map_dict_to_local v (filter (\<lambda>e. fst e \<in> snd ` set (local_to_bus v)) r)"
  using to_local_filter [of "map_of (reverse_of (local_to_bus v))" "[]" r]
  by (simp add: map_dict_to_local_def Let_def reverse_of_None)

lemma map_dict_to_local_lookup:
  assumes "distinct (dict_keys (local_to_bus v))" and "distinct (map snd (local_to_bus v))"
    and "distinct (dict_keys r)"
  shows "map_of (map_dict_to_local v r) n =
           (case map_of (local_to_bus v) n of None \<Rightarrow> None | Some g \<Rightarrow> map_of r g)"
proof -
  have inv: "\<And>g k. (map_of (reverse_of (local_to_bus v)) g = Some k) =
                    (map_of (local_to_bus v) k = Some g)"
    using map_of_reverse_of_inj assms(1,2) by (simp add: dict_keys_def)
  from to_local_lookup [of "map_of (reverse_of (local_to_bus v))" "map_of (local_to_bus v)" r "[]" n,
      OF inv] assms(3)
  show ?thesis
    by (simp add: map_dict_to_local_def Let_def dict_keys_def split: option.splits)
qed

text \<open>
  C6. What \<open>sync_read\<close>, \<open>set_half_turn_homings\<close> and \<open>record_ranges_of_motion\<close>
  return is the handle's result passed through \<open>_map_dict_to_local\<close>. For every
  result \<open>r\<close> of the handle, the dictionary returned is keyed only by local
  names of the view's local-to-global map (its local motor names), every
  entry of it comes from an entry of \<open>r\<close> under a bus-global name of this
  view, the entries of \<open>r\<close> under bus-global names absent from the map have no
  effect, and, the map being injective, each local name carries the value that
  \<open>r\<close> has under its bus-global name.
\<close>

theorem results_mapped_to_local:
  "(bus m = Some b \<longrightarrow> translate_motors v motors = Inr subs \<longrightarrow>
       fst (sync_read rd v m data_name motors nrm num_retry) =
         Inr (map_dict_to_local v (rd b data_name subs nrm num_retry))
     \<and> fst (set_half_turn_homings hh v m motors) = Inr (map_dict_to_local v (hh b subs))
     \<and> fst (record_ranges_of_motion rr v m motors) =
         Inr (map_dict_to_local v (fst (rr b subs)), map_dict_to_local v (snd (rr b subs))))
   \<and> set (dict_keys (map_dict_to_local v r)) \<subseteq> set (dict_keys (local_to_bus v))
   \<and> (dict_keys (local_to_bus v) = dict_keys (local_motors v) \<longrightarrow>
        set (dict_keys (map_dict_to_local v r)) \<subseteq> set (dict_keys (local_motors v)))
   \<and> distinct (dict_keys (map_dict_to_local v r))
   \<and> ((n, x) \<in> set (map_dict_to_local v r) \<longrightarrow>
        (\<exists>g. (n, g) \<in> set (local_to_bus v) \<and> (g, x) \<in> set r))
   \<and> map_dict_to_local v r =
       map_dict_to_local v (filter (\<lambda>e. fst e \<in> snd ` set (local_to_bus v)) r)
   \<and> (distinct (dict_keys (local_to_bus v)) \<longrightarrow> distinct (map snd (local_to_bus v)) \<longrightarrow>
       distinct (dict_keys r) \<longrightarrow>
        map_of (map_dict_to_local v r) k =
          (case map_of (local_to_bus v) k of None \<Rightarrow> None | Some g \<Rightarrow> map_of r g))"
proof -
  have ops: "fst (sync_read rd v m data_name motors nrm num_retry) =
         Inr (map_dict_to_local v (rd b data_name subs nrm num_retry))
     \<and> fst (set_half_turn_homings hh v m motors) = Inr (map_dict_to_local v (hh b subs))
     \<and> fst (record_ranges_of_motion rr v m motors) =
         Inr (map_dict_to_local v (fst (rr b subs)), map_dict_to_local v (snd (rr b subs)))"
    if "bus m = Some b" "translate_motors v motors = Inr subs"
    using that
    by (simp add: sync_read_def set_half_turn_homings_def record_ranges_of_motion_def Let_def
        split: prod.splits)
  from ops map_dict_to_local_keys [of v r] map_dict_to_local_distinct [of v r]
    map_dict_to_local_member [of n x v r] map_dict_to_local_filter [of v r]
    map_dict_to_local_lookup [of v r k]
  show ?thesis by metis
qed

theorem results_mapped_to_local_witness:
  "bus ex_m3 = Some ex_bus
   \<and> translate_motors ex_right AllMotors = Inr [''right_shoulder'']
   \<and> distinct (dict_keys (local_to_bus ex_right)) \<and> distinct (map snd (local_to_bus ex_right))
   \<and> dict_keys (local_to_bus ex_right) = dict_keys (local_motors ex_right)
   \<and> fst (sync_read (\<lambda>b dn ms nz nr. [(''left_shoulder'', 11), (''right_shoulder'', 22)])
            ex_right ex_m3 ''Present_Position'' AllMotors True 0) = Inr [(''shoulder'', 22)]
   \<and> map_dict_to_local ex_right [(''left_shoulder'', 11 :: int), (''right_shoulder'', 22)] =
       [(''shoulder'', 22)]
   \<and> set (dict_keys (map_dict_to_local ex_right
             [(''left_shoulder'', 11 :: int), (''right_shoulder'', 22)])) \<subseteq>
       set (dict_keys (local_motors ex_right))"
  using results_mapped_to_local [where m = ex_m3 and b = ex_bus and v = ex_right
      and motors = AllMotors and subs = "[''right_shoulder'']"
      and rd = "\<lambda>b dn ms nz nr. [(''left_shoulder'', 11), (''right_shoulder'', 22)]"
      and r = "[(''left_shoulder'', 11 :: int), (''right_shoulder'', 22)]"
      and data_name = "''Present_Position''" and nrm = True and num_retry = 0
      and hh = "\<lambda>b ms. []" and rr = "\<lambda>b ms. ([], [])" and n = "''shoulder''" and x = 22
      and k = "''shoulder''"]
  by (simp add: ex_defs2 translate_motors_def map_dict_to_local_def reverse_of_def)

section \<open>Round trip of a batch write and a batch read\<close>

lemma bus_name_of_Some: "map_of (local_to_bus v) n = Some g \<Longrightarrow> bus_name_of v n = g"
  by (simp add: bus_name_of_def)

lemma known_name:
  assumes "n \<in> set (dict_keys (local_to_bus v))"
  shows "map_of (local_to_bus v) n = Some (bus_name_of v n)"
proof -
  from assms have "n \<in> fst ` set (local_to_bus v)" by (simp add: dict_keys_def)
  then obtain g where "map_of (local_to_bus v) n = Some g"
    by (metis domIff dom_map_of_conv_image_fst not_Some_eq)
  then show ?thesis by (simp add: bus_name_of_def)
qed

lemma bus_name_of_range:
  assumes "n \<in> set (dict_keys (local_to_bus v))"
  shows "bus_name_of v n \<in> snd ` set (local_to_bus v)"
  using map_of_SomeD [OF known_name [OF assms]] by force

lemma bus_name_of_inj:
  assumes "distinct (map snd (local_to_bus v))"
  shows "inj_on (bus_name_of v) (set (dict_keys (local_to_bus v)))"
proof (rule inj_onI)
  fix a b
  assume a: "a \<in> set (dict_keys (local_to_bus v))" and b: "b \<in> set (dict_keys (local_to_bus v))"
    and eq: "bus_name_of v a = bus_name_of v b"
  from map_of_SomeD [OF known_name [OF a]] have 1: "(a, bus_name_of v b) \<in> set (local_to_bus v)"
    by (simp add: eq)
  from map_of_SomeD [OF known_name [OF b]] have 2: "(b, bus_name_of v b) \<in> set (local_to_bus v)" .
  from distinct_snd_unique [OF assms 1 2] show "a = b" .
qed

lemma translate_items_known:
  assumes "set (map fst vals) \<subseteq> set (dict_keys (local_to_bus v))"
  shows "translate_items (local_to_bus v) vals acc =
           Inr (foldl (\<lambda>a e. dict_set (bus_name_of v (fst e)) (snd e) a) acc vals)"
  using assms
proof (induction vals arbitrary: acc)
  case Nil
  show ?case by simp
next
  case (Cons p vals)
  obtain n x where p: "p = (n, x)" by (cases p)
  from Cons.prems have "n \<in> set (dict_keys (local_to_bus v))" by (simp add: p)
  from known_name [OF this] have n: "map_of (local_to_bus v) n = Some (bus_name_of v n)" .
  from Cons.prems have "set (map fst vals) \<subseteq> set (dict_keys (local_to_bus v))" by simp
  from Cons.IH [OF this] n show ?case by (simp add: p)
qed

lemma lookup_all_known:
  assumes "set ns \<subseteq> set (dict_keys (local_to_bus v))"
  shows "lookup_all (local_to_bus v) ns = Inr (map (bus_name_of v) ns)"
  using assms
proof (induction ns)
  case Nil
  show ?case by simp
next
  case (Cons n ns)
  from Cons.prems have "n \<in> set (dict_keys (local_to_bus v))" by simp
  from known_name [OF this] have n: "map_of (local_to_bus v) n = Some (bus_name_of v n)" .
  from Cons.prems have "set ns \<subseteq> set (dict_keys (local_to_bus v))" by simp
  from Cons.IH [OF this] n show ?case by simp
qed

lemma stored_lookup_other:
  "g \<notin> fst ` set p \<Longrightarrow>
   map_of (foldl (\<lambda>a e. dict_set (fst e) (snd e) a) acc p) g = map_of acc g"
  by (induction p arbitrary: acc) (auto simp: map_of_dict_set)

lemma stored_lookup:
  assumes "distinct (map fst p)" and "(g, x) \<in> set p"
  shows "map_of (foldl (\<lambda>a e. dict_set (fst e) (snd e) a) acc p) g = Some x"
  using assms
proof (induction p arbitrary: acc)
  case Nil
  then show ?case by simp
next
  case (Cons q p)
  show ?case
  proof (cases "q = (g, x)")
    case True
    with Cons.prems have "g \<notin> fst ` set p" by auto
    from stored_lookup_other [OF this] True show ?thesis by (simp add: map_of_dict_set)
  next
    case False
    with Cons.prems have "distinct (map fst p)" and "(g, x) \<in> set p" by auto
    from Cons.IH [OF this] show ?thesis by simp
  qed
qed

lemma echo_store_after_write:
  "echo_store (bus_receive (SyncWrite data_name payload nrm num_retry) b) data_name =
     foldl (\<lambda>a e. dict_set (fst e) (snd e) a) (echo_store b data_name) payload"
  by (simp add: echo_store_def bus_receive_def store_call_def)

lemma echo_answers:
  assumes "\<forall>e \<in> set p. S (fst e) = Some (snd e)" and "distinct (map fst p)"
    and "fst ` set p \<inter> fst ` set acc = {}"
  shows "foldl (\<lambda>acc g. case S g of None \<Rightarrow> acc | Some x \<Rightarrow> dict_set g x acc) acc (map fst p) =
           acc @ p"
  using assms
proof (induction p arbitrary: acc)
  case Nil
  show ?case by simp
next
  case (Cons q p)
  obtain g x where q: "q = (g, x)" by (cases q)
  from Cons.prems have S: "S g = Some x" and fresh: "g \<notin> fst ` set acc"
    by (auto simp: q)
  have step: "dict_set g x acc = acc @ [(g, x)]" using fresh by (rule dict_set_absent)
  from Cons.prems have 1: "\<forall>e \<in> set p. S (fst e) = Some (snd e)" and 2: "distinct (map fst p)"
    and 3: "fst ` set p \<inter> fst ` set (acc @ [(g, x)]) = {}"
    by (auto simp: q)
  from Cons.IH [OF 1 2 3] S step show ?case by (simp add: q)
qed

lemma to_local_roundtrip:
  assumes "\<forall>e \<in> set vals. R (G (fst e)) = Some (fst e)" and "distinct (map fst vals)"
    and "fst ` set vals \<inter> fst ` set acc = {}"
  shows "foldl (\<lambda>acc e. case R (fst e) of None \<Rightarrow> acc | Some l \<Rightarrow> dict_set l (snd e) acc) acc
           (map (\<lambda>e. (G (fst e), snd e)) vals) = acc @ vals"
  using assms
proof (induction vals arbitrary: acc)
  case Nil
  show ?case by simp
next
  case (Cons q vals)
  obtain n x where q: "q = (n, x)" by (cases q)
  from Cons.prems have R: "R (G n) = Some n" and fresh: "n \<notin> fst ` set acc"
    by (auto simp: q)
  have step: "dict_set n x acc = acc @ [(n, x)]" using fresh by (rule dict_set_absent)
  from Cons.prems have 1: "\<forall>e \<in> set vals. R (G (fst e)) = Some (fst e)"
    and 2: "distinct (map fst vals)"
    and 3: "fst ` set vals \<inter> fst ` set (acc @ [(n, x)]) = {}"
    by (auto simp: q)
  from Cons.IH [OF 1 2 3] R step show ?case by (simp add: q)
qed

text \<open>
  C4. For a view whose local-to-global map is injective and a dictionary of
  values keyed by local names of that map, \<open>sync_write\<close> followed by
  \<open>sync_read\<close> of the same local names, against the handle double that echoes
  what was stored, returns the dictionary itself (same items, same order), and
  the two calls that the double receives carry bus-global names only: the
  payload of the write is keyed by the bus-global names of the local names,
  and the read asks for those names.
\<close>

theorem sync_write_read_roundtrip:
  assumes "bus m = Some b"
    and "distinct (dict_keys (local_to_bus v))" and "distinct (map snd (local_to_bus v))"
    and "distinct (dict_keys vals)"
    and "set (dict_keys vals) \<subseteq> set (dict_keys (local_to_bus v))"
  shows "write_then_read v m data_name vals nrm num_retry nrm2 num_retry2 =
           (Inr vals,
            m\<lparr>bus := Some (b\<lparr>bus_calls := bus_calls b @
                [SyncWrite data_name (map (\<lambda>e. (bus_name_of v (fst e), snd e)) vals) nrm num_retry,
                 SyncRead data_name (map (bus_name_of v) (dict_keys vals)) nrm2 num_retry2]\<rparr>)\<rparr>)
       \<and> set (map (bus_name_of v) (dict_keys vals)) \<subseteq> snd ` set (local_to_bus v)"
proof -
  let ?G = "bus_name_of v"
  define payload where "payload = map (\<lambda>e. (?G (fst e), snd e)) vals"
  define subs where "subs = map ?G (dict_keys vals)"
  have keys: "set (map fst vals) \<subseteq> set (dict_keys (local_to_bus v))"
    using assms(5) by (simp add: dict_keys_def)
  have inj: "inj_on ?G (set (map fst vals))"
    using bus_name_of_inj [OF assms(3)] keys by (rule inj_on_subset)
  have dG: "distinct (map (\<lambda>e. ?G (fst e)) vals)"
  proof -
    have d1: "distinct (map fst vals)" using assms(4) by (simp add: dict_keys_def)
    have "distinct (map ?G (map fst vals))"
      using d1 inj unfolding distinct_map [of ?G "map fst vals"] by blast
    then show ?thesis by (simp only: map_map comp_def)
  qed
  have fstp: "map fst payload = subs"
    by (simp add: payload_def subs_def dict_keys_def comp_def)
  have dp: "distinct (map fst payload)" using dG by (simp add: payload_def comp_def)
  have td: "translate_dict v vals = Inr payload"
    unfolding translate_dict_def translate_items_known [OF keys]
    using foldl_dict_set_append [of "\<lambda>e. ?G (fst e)" vals "[]" snd] dG
    by (simp add: payload_def)
  define b1 where "b1 = bus_receive (SyncWrite data_name payload nrm num_retry) b"
  have w: "sync_write v m data_name vals nrm num_retry = (Inr (), m\<lparr>bus := Some b1\<rparr>)"
    using assms(1) td by (simp add: sync_write_def b1_def)
  have tm: "translate_motors v (MotorList (dict_keys vals)) = Inr subs"
    using lookup_all_known [OF assms(5)] by (simp add: translate_motors_def subs_def)
  have stored: "\<forall>e \<in> set payload. map_of (echo_store b1 data_name) (fst e) = Some (snd e)"
  proof
    fix e assume "e \<in> set payload"
    then have "(fst e, snd e) \<in> set payload" by simp
    from stored_lookup [OF dp this] show "map_of (echo_store b1 data_name) (fst e) = Some (snd e)"
      by (simp add: b1_def echo_store_after_write)
  qed
  have echo: "echo_sync_read b1 data_name subs nrm2 num_retry2 = payload"
    using echo_answers [of payload "map_of (echo_store b1 data_name)" "[]", OF stored dp]
    by (simp add: echo_sync_read_def fstp)
  have rev: "\<forall>e \<in> set vals. map_of (reverse_of (local_to_bus v)) (?G (fst e)) = Some (fst e)"
  proof
    fix e assume "e \<in> set vals"
    with keys have "fst e \<in> set (dict_keys (local_to_bus v))" by auto
    from known_name [OF this]
    show "map_of (reverse_of (local_to_bus v)) (?G (fst e)) = Some (fst e)"
      using map_of_reverse_of_inj [of "local_to_bus v"] assms(2,3) by (simp add: dict_keys_def)
  qed
  have mapped: "map_dict_to_local v payload = vals"
    using to_local_roundtrip [of vals "map_of (reverse_of (local_to_bus v))" ?G "[]", OF rev]
      assms(4)
    by (simp add: map_dict_to_local_def Let_def payload_def dict_keys_def)
  have r: "sync_read echo_sync_read v (m\<lparr>bus := Some b1\<rparr>) data_name
             (MotorList (dict_keys vals)) nrm2 num_retry2 =
           (Inr vals,
            m\<lparr>bus := Some (bus_receive (SyncRead data_name subs nrm2 num_retry2) b1)\<rparr>)"
    using tm echo mapped by (simp add: sync_read_def Let_def)
  have range: "set (map ?G (dict_keys vals)) \<subseteq> snd ` set (local_to_bus v)"
    using bus_name_of_range assms(5) by auto
  from w r range show ?thesis
    by (simp add: write_then_read_def b1_def bus_receive_def payload_def subs_def)
qed

theorem sync_write_read_roundtrip_witness:
  "bus ex_m3 = Some ex_bus
   \<and> distinct (dict_keys (local_to_bus ex_arm)) \<and> distinct (map snd (local_to_bus ex_arm))
   \<and> distinct (dict_keys [(''elbow'', 10 :: int), (''shoulder'', 20)])
   \<and> set (dict_keys [(''elbow'', 10 :: int), (''shoulder'', 20)]) \<subseteq>
       set (dict_keys (local_to_bus ex_arm))
   \<and> write_then_read ex_arm ex_m3 ''Goal_Position'' [(''elbow'', 10), (''shoulder'', 20)]
        True 0 False 1 =
       (Inr [(''elbow'', 10), (''shoulder'', 20)],
        ex_m3\<lparr>bus := Some (ex_bus\<lparr>bus_calls :=
          [Connect True,
           SyncWrite ''Goal_Position'' [(''left_elbow'', 10), (''left_shoulder'', 20)] True 0,
           SyncRead ''Goal_Position'' [''left_elbow'', ''left_shoulder''] False 1]\<rparr>)\<rparr>)"
proof -
  have h: "bus ex_m3 = Some ex_bus"
    "distinct (dict_keys (local_to_bus ex_arm))" "distinct (map snd (local_to_bus ex_arm))"
    "distinct (dict_keys [(''elbow'', 10 :: int), (''shoulder'', 20)])"
    "set (dict_keys [(''elbow'', 10 :: int), (''shoulder'', 20)]) \<subseteq>
       set (dict_keys (local_to_bus ex_arm))"
    by (simp_all add: ex_defs2 ex_arm_def)
  from sync_write_read_roundtrip [OF h, of "''Goal_Position''" True 0 False 1] h
  show ?thesis by (simp add: bus_name_of_def ex_arm_def ex_bus_def dict_keys_def)
qed

section \<open>Reachable states\<close>

text \<open>The views that \<open>register_component\<close> returns have a total and injective
  local-to-global map, and the manager keeps the lifecycle invariant from its
  construction on: in every state that the operations reach, a manager at
  reference count zero is not connected.\<close>

lemma registered_view_wellformed:
  assumes "register_component m component_name lms prefix offs ic = (Inr view, m')"
  shows "distinct (dict_keys (local_to_bus view))"
    and "distinct (map snd (local_to_bus view))"
    and "dict_keys (local_to_bus view) = dict_keys (local_motors view)"
proof -
  note R = register_component_Inr [OF assms]
  from R have d: "distinct (map fst lms)" by simp
  from R have l2b: "local_to_bus view = map (mapping_entry prefix) lms"
    and lm: "local_motors view = map (local_entry offs) lms"
    by (simp_all add: FeetechBusView_init_def)
  have keys: "map fst (map (mapping_entry prefix) lms) = map fst lms"
    "map fst (map (local_entry offs) lms) = map fst lms"
    by (simp_all add: comp_def mapping_entry_def local_entry_def)
  have vals: "map snd (map (mapping_entry prefix) lms) = map ((@) prefix) (map fst lms)"
    by (simp add: comp_def mapping_entry_def)
  show "distinct (dict_keys (local_to_bus view))"
    using d by (simp only: dict_keys_def l2b keys)
  show "dict_keys (local_to_bus view) = dict_keys (local_motors view)"
    by (simp only: dict_keys_def l2b lm keys)
  have "distinct (map ((@) prefix) (map fst lms))"
    using d unfolding distinct_map [of "(@) prefix" "map fst lms"] by (simp add: inj_on_def)
  then show "distinct (map snd (local_to_bus view))"
    by (simp only: l2b vals)
qed

lemma register_loop_frame:
  "bus (snd (register_loop prefix offs ic items m lc mp)) = bus m
   \<and> refcount (snd (register_loop prefix offs ic items m lc mp)) = refcount m"
proof (induction items arbitrary: m lc mp)
  case Nil
  show ?case by simp
next
  case (Cons x xs)
  obtain n mot where x: "x = (n, mot)" by (cases x)
  show ?case
  proof (cases "dict_contains (prefix @ n) (motor_defs m)")
    case True
    then show ?thesis unfolding x by simp
  next
    case False
    from Cons.IH show ?thesis unfolding x register_loop_step [OF False] by simp
  qed
qed

lemma register_component_frame:
  "bus (snd (register_component m component_name lms prefix offs ic)) = bus m
   \<and> refcount (snd (register_component m component_name lms prefix offs ic)) = refcount m"
proof -
  obtain r m1 where loop: "register_loop prefix offs ic lms m [] [] = (r, m1)"
    by (cases "register_loop prefix offs ic lms m [] []")
  from register_loop_frame [of prefix offs ic lms m "[]" "[]"] loop
  have "bus m1 = bus m \<and> refcount m1 = refcount m" by simp
  with loop show ?thesis
    by (cases r) (auto simp: register_component_def Let_def)
qed

lemma lifecycle_ok_init: "lifecycle_ok (FeetechBusManager_init nm cfg)"
  by (simp add: lifecycle_ok_def FeetechBusManager_init_def handle_connected_def)

lemma lifecycle_ok_register:
  assumes "lifecycle_ok m"
  shows "lifecycle_ok (snd (register_component m component_name lms prefix offs ic))"
proof (cases "bus m")
  case None
  with assms register_component_frame [of m component_name lms prefix offs ic] show ?thesis
    by (simp add: lifecycle_ok_def handle_connected_def)
next
  case (Some b)
  with assms register_component_frame [of m component_name lms prefix offs ic] show ?thesis
    by (simp add: lifecycle_ok_def handle_connected_def handle_true_def)
qed

lemma lifecycle_ok_acquire:
  assumes "lifecycle_ok m"
  shows "lifecycle_ok (acquire h m)"
proof (cases "bus m")
  case None
  with assms show ?thesis
    by (simp add: lifecycle_ok_def acquire_def ensure_bus_def Let_def handle_connected_def
        handle_true_def FeetechMotorsBus_init_def bus_connect_def bus_receive_def bus_truth_def)
next
  case (Some b)
  with assms show ?thesis
    by (auto simp: lifecycle_ok_def acquire_def ensure_bus_def Let_def handle_connected_def
        handle_true_def bus_connect_def bus_receive_def bus_truth_def)
qed

lemma lifecycle_ok_release:
  assumes "lifecycle_ok m"
  shows "lifecycle_ok (release d m)"
proof (cases "bus m")
  case None
  with assms show ?thesis
    by (auto simp: lifecycle_ok_def release_def Let_def handle_connected_def)
next
  case (Some b)
  with assms show ?thesis
    by (auto simp: lifecycle_ok_def release_def Let_def handle_connected_def handle_true_def
        bus_disconnect_def bus_receive_def bus_truth_def)
qed

lemma lifecycle_ok_zero:
  "lifecycle_ok m \<Longrightarrow> refcount m = 0 \<Longrightarrow> \<not> handle_connected m \<and> \<not> manager_is_connected m"
  by (cases "bus m") (auto simp: lifecycle_ok_def handle_connected_def manager_is_connected_def)

end
